theory Spec2Isabelle
  imports Complex_Main "HOL-Library.Sublist"
begin

section \<open>Data model of the filter service (src/main.py)\<close>

text \<open>
  The service filters the line segments and text labels of one drawing page per region.
  Python floats are modelled as real numbers (rounding, infinities and NaN are not
  modelled); a \<^verbatim>\<open>List[float]\<close> is a list of reals, so that a coordinate list of
  the wrong arity is an input of the model as it is an input of the code; strings are
  lists of characters, read as code points below 256.
\<close>

subsection \<open>Exceptions as values\<close>

text \<open>
  \<^verbatim>\<open>IndexError\<close>: a list read out of range. \<^verbatim>\<open>ValueError\<close>: a tuple
  unpacking of the wrong arity. \<^verbatim>\<open>HTTPException\<close> carries the status code (the detail
  message is not modelled).
\<close>

datatype error = IndexError | ValueError | HTTPException nat

definition bind_res :: "error + 'a \<Rightarrow> ('a \<Rightarrow> error + 'b) \<Rightarrow> error + 'b" where
  "bind_res m f = (case m of Inl e \<Rightarrow> Inl e | Inr v \<Rightarrow> f v)"

definition index_py :: "'a list \<Rightarrow> nat \<Rightarrow> error + 'a" where
  \<comment> \<open>\<^verbatim>\<open>xs[i]\<close> for a literal index \<open>i \<ge> 0\<close>\<close>
  "index_py xs i = (if i < length xs then Inr (xs ! i) else Inl IndexError)"

definition unpack2 :: "'a list \<Rightarrow> error + ('a \<times> 'a)" where
  \<comment> \<open>\<^verbatim>\<open>a, b = xs\<close>\<close>
  "unpack2 xs = (case xs of [a, b] \<Rightarrow> Inr (a, b) | _ \<Rightarrow> Inl ValueError)"

definition unpack4 :: "'a list \<Rightarrow> error + ('a \<times> 'a \<times> 'a \<times> 'a)" where
  \<comment> \<open>\<^verbatim>\<open>a, b, c, d = xs\<close>\<close>
  "unpack4 xs = (case xs of [a, b, c, d] \<Rightarrow> Inr (a, b, c, d) | _ \<Rightarrow> Inl ValueError)"

subsection \<open>Input and output models (main.py, lines 33-92)\<close>

record VectorLine =
  p1 :: "real list"
  p2 :: "real list"
  stroke_width :: real
  line_length :: real  \<comment> \<open>the field \<^verbatim>\<open>length\<close>\<close>
  color :: "int list"
  is_dashed :: bool
  angle :: "real option"

record VectorText =
  text_content :: string  \<comment> \<open>the field \<^verbatim>\<open>text\<close>\<close>
  position :: "real list"
  font_size :: "real option"
  bounding_box :: "real list"

record VectorPage =
  page_size :: "(string \<times> real) list"
  lines :: "VectorLine list"
  texts :: "VectorText list"

record VectorData =
  page_number :: int
  pages :: "VectorPage list"

record VisionRegion =
  label :: string
  coordinate_block :: "real list"

text \<open>The optional \<^verbatim>\<open>image_metadata\<close> of \<^verbatim>\<open>VisionOutput\<close> is never read and is left out.\<close>

record VisionOutput =
  drawing_type :: string
  regions :: "VisionRegion list"

record FilterInput =
  vector_data :: VectorData
  vision_output :: VisionOutput

record CleanPoint =
  cp_x :: real
  cp_y :: real

record FilteredLine =
  fl_length :: real  \<comment> \<open>the field \<^verbatim>\<open>length\<close>\<close>
  orientation :: string
  midpoint :: CleanPoint

record FilteredText =
  ft_text :: string  \<comment> \<open>the field \<^verbatim>\<open>text\<close>\<close>
  ft_midpoint :: "(string \<times> real) list"  \<comment> \<open>the dict \<^verbatim>\<open>midpoint\<close>, keys in insertion order\<close>

record RegionData =
  rd_label :: string
  rd_lines :: "FilteredLine list"
  rd_texts :: "FilteredText list"
  parsed_drawing_type :: "string option"

record CleanOutput =
  out_drawing_type :: string
  out_regions :: "RegionData list"

section \<open>Geometry helpers\<close>

subsection \<open>Orientation (main.py, lines 134-160)\<close>

definition fmod_py :: "real \<Rightarrow> real \<Rightarrow> real" where
  \<comment> \<open>\<^verbatim>\<open>a % b\<close> on floats, for \<open>b > 0\<close>: the result lies in \<open>[0, b)\<close>\<close>
  "fmod_py a b = a - b * of_int \<lfloor>a / b\<rfloor>"

definition atan2_py :: "real \<Rightarrow> real \<Rightarrow> real" where
  \<comment> \<open>\<^verbatim>\<open>math.atan2(y, x)\<close>, signed zeros aside\<close>
  "atan2_py b a =
     (if a > 0 then arctan (b / a)
      else if a < 0 \<and> b \<ge> 0 then arctan (b / a) + pi
      else if a < 0 then arctan (b / a) - pi
      else if b > 0 then pi / 2
      else if b < 0 then - pi / 2
      else 0)"

definition degrees_py :: "real \<Rightarrow> real" where
  "degrees_py r = r * 180 / pi"

definition classify_angle :: "real \<Rightarrow> string" where
  \<comment> \<open>the three-way test both branches of \<^verbatim>\<open>calculate_orientation\<close> end with\<close>
  "classify_angle a =
     (if a < 15 \<or> a > 165 then ''vertical''
      else if 75 < a \<and> a < 105 then ''horizontal''
      else ''diagonal'')"

definition calculate_orientation :: "real list \<Rightarrow> real list \<Rightarrow> real option \<Rightarrow> error + string" where
  "calculate_orientation pt1 pt2 ang =
     (case ang of
        Some a \<Rightarrow> Inr (classify_angle \<bar>fmod_py a 180\<bar>)
      | None \<Rightarrow>
          bind_res (index_py pt2 0) (\<lambda>bx.
          bind_res (index_py pt1 0) (\<lambda>ax.
          bind_res (index_py pt2 1) (\<lambda>by.
          bind_res (index_py pt1 1) (\<lambda>ay.
            let dx = \<bar>bx - ax\<bar>; dy = \<bar>by - ay\<bar> in
            if dx < 1 then Inr ''horizontal''
            else if dy < 1 then Inr ''vertical''
            else Inr (classify_angle (degrees_py (atan2_py dy dx))))))))"

definition calculate_midpoint :: "real list \<Rightarrow> real list \<Rightarrow> error + CleanPoint" where
  "calculate_midpoint pt1 pt2 =
     bind_res (index_py pt1 0) (\<lambda>ax.
     bind_res (index_py pt2 0) (\<lambda>bx.
     bind_res (index_py pt1 1) (\<lambda>ay.
     bind_res (index_py pt2 1) (\<lambda>by.
       Inr \<lparr>cp_x = (ax + bx) / 2, cp_y = (ay + by) / 2\<rparr>))))"

definition calculate_text_midpoint :: "real list \<Rightarrow> error + (string \<times> real) list" where
  "calculate_text_midpoint bbox =
     bind_res (index_py bbox 0) (\<lambda>b0.
     bind_res (index_py bbox 2) (\<lambda>b2.
     bind_res (index_py bbox 1) (\<lambda>b1.
     bind_res (index_py bbox 3) (\<lambda>b3.
       Inr [(''x'', (b0 + b2) / 2), (''y'', (b1 + b3) / 2)]))))"

section \<open>Strings\<close>

definition is_space_py :: "char \<Rightarrow> bool" where
  \<comment> \<open>\<^verbatim>\<open>str.isspace\<close> and the regex class \<^verbatim>\<open>\s\<close>, on code points below 256\<close>
  "is_space_py c = (of_char c \<in> set [9, 10, 11, 12, 13, 28, 29, 30, 31, 32, 133, 160 :: nat])"

definition strip_py :: "string \<Rightarrow> string" where
  "strip_py s = rev (dropWhile is_space_py (rev (dropWhile is_space_py s)))"

definition lower_char :: "char \<Rightarrow> char" where
  \<comment> \<open>\<^verbatim>\<open>str.lower\<close> on one code point below 256: A-Z, and the Latin-1 capitals but the
      multiplication sign\<close>
  "lower_char c =
     (let n = of_char c :: nat in
      if (65 \<le> n \<and> n \<le> 90) \<or> (192 \<le> n \<and> n \<le> 222 \<and> n \<noteq> 215) then char_of (n + 32) else c)"

definition lower_py :: "string \<Rightarrow> string" where
  "lower_py s = map lower_char s"

fun contains_py :: "string \<Rightarrow> string \<Rightarrow> bool" where
  \<comment> \<open>\<^verbatim>\<open>needle in hay\<close>\<close>
  "contains_py needle [] = (needle = [])"
| "contains_py needle (c # cs) = (prefix needle (c # cs) \<or> contains_py needle cs)"

fun first_index :: "string \<Rightarrow> string \<Rightarrow> nat" where
  "first_index needle [] = 0"
| "first_index needle (c # cs) = (if prefix needle (c # cs) then 0 else Suc (first_index needle cs))"

definition find_py :: "string \<Rightarrow> string \<Rightarrow> int" where
  \<comment> \<open>\<^verbatim>\<open>hay.find(needle)\<close>: the first position, or -1\<close>
  "find_py hay needle = (if contains_py needle hay then int (first_index needle hay) else - 1)"

definition slice_py :: "string \<Rightarrow> int \<Rightarrow> int \<Rightarrow> string" where
  \<comment> \<open>\<^verbatim>\<open>s[a:b]\<close>: a negative bound counts from the end, both are clipped\<close>
  "slice_py s a b =
     (let n = int (length s);
          a' = (if a < 0 then max 0 (n + a) else min n a);
          b' = (if b < 0 then max 0 (n + b) else min n b)
      in take (nat (b' - a')) (drop (nat a') s))"

section \<open>Region label classifier (main.py, lines 94-132)\<close>

definition valid_types :: "string list" where
  "valid_types =
     [''plattegrond'', ''doorsnede'', ''gevelaanzicht'',
      ''detailtekening_kozijn'', ''detailtekening_plattegrond'',
      ''detailtekening'']"

definition keyword_region_type :: "string \<Rightarrow> string" where
  \<comment> \<open>the keyword fallback, on the lowered label\<close>
  "keyword_region_type label_lower =
     (if contains_py ''plattegrond'' label_lower \<or> contains_py ''grond'' label_lower
         \<or> contains_py ''verdieping'' label_lower then ''plattegrond''
      else if contains_py ''gevel'' label_lower \<or> contains_py ''aanzicht'' label_lower
        then ''gevelaanzicht''
      else if contains_py ''doorsnede'' label_lower then ''doorsnede''
      else if contains_py ''detail'' label_lower then
        (if contains_py ''kozijn'' label_lower \<or> contains_py ''raam'' label_lower
            \<or> contains_py ''deur'' label_lower then ''detailtekening_kozijn''
         else ''detailtekening'')
      else ''unknown'')"

definition parse_bestektekening_region_type :: "string \<Rightarrow> string" where
  \<comment> \<open>the \<^verbatim>\<open>try\<close> block raises nothing: \<^verbatim>\<open>find\<close>, slicing and \<^verbatim>\<open>strip\<close> are total\<close>
  "parse_bestektekening_region_type region_label =
     (let explicit =
        (if contains_py ''('' region_label \<and> contains_py '')'' region_label then
           (let start = find_py region_label ''('' + 1;
                end_pos = find_py region_label '')'';
                extracted_type = strip_py (slice_py region_label start end_pos)
            in if extracted_type \<in> set valid_types then Some extracted_type else None)
         else None)
      in case explicit of
           Some t \<Rightarrow> t
         | None \<Rightarrow> keyword_region_type (lower_py region_label))"

section \<open>Dimension texts\<close>

subsection \<open>The regular expressions of the parser\<close>

text \<open>
  The seven patterns of \<^verbatim>\<open>extract_dimension_value\<close> are sequences of a few kinds of
  items, all anchored at both ends and all ending in an optional unit group before
  \<^verbatim>\<open>$\<close>. Every item is matched greedily and without backtracking: what follows the
  numeric literal never starts with a digit, a comma or a dot, and what follows
  white space never starts with white space, so no shorter match of an item can make the
  rest of a pattern succeed.
\<close>

datatype re_item =
    Lit char          \<comment> \<open>one literal character, \<^verbatim>\<open>\+\<close>\<close>
  | Number            \<comment> \<open>group 1, \<^verbatim>\<open>(\d+(?:[,.]\d+)?)\<close>\<close>
  | Spaces0           \<comment> \<open>\<^verbatim>\<open>\s*\<close>\<close>
  | Spaces1           \<comment> \<open>\<^verbatim>\<open>\s+\<close>\<close>
  | OneOf string      \<comment> \<open>a character class such as \<^verbatim>\<open>[pPvV]\<close>, given by its lowered members\<close>

definition is_digit :: "char \<Rightarrow> bool" where
  "is_digit c = (c \<in> set ''0123456789'')"

definition re_digits :: "string \<Rightarrow> (string \<times> string) option" where
  \<comment> \<open>\<^verbatim>\<open>\d+\<close>: the digits matched and the rest\<close>
  "re_digits s =
     (if takeWhile is_digit s = [] then None
      else Some (takeWhile is_digit s, dropWhile is_digit s))"

definition re_number :: "string \<Rightarrow> (string \<times> string) option" where
  "re_number s =
     (case re_digits s of
        None \<Rightarrow> None
      | Some (ip, r) \<Rightarrow>
          (case r of
             [] \<Rightarrow> Some (ip, r)
           | c # r' \<Rightarrow>
               if c = CHR '','' \<or> c = CHR ''.'' then
                 (case re_digits r' of
                    None \<Rightarrow> Some (ip, r)
                  | Some (fp, r'') \<Rightarrow> Some (ip @ c # fp, r''))
               else Some (ip, r)))"

fun match_items :: "re_item list \<Rightarrow> string \<Rightarrow> string option \<Rightarrow> (string option \<times> string) option" where
  \<comment> \<open>the items in order; the third argument is group 1 so far\<close>
  "match_items [] s g = Some (g, s)"
| "match_items (Lit c # its) s g =
     (case s of [] \<Rightarrow> None | d # r \<Rightarrow> if d = c then match_items its r g else None)"
| "match_items (Number # its) s g =
     (case re_number s of None \<Rightarrow> None | Some (n, r) \<Rightarrow> match_items its r (Some n))"
| "match_items (Spaces0 # its) s g = match_items its (dropWhile is_space_py s) g"
| "match_items (Spaces1 # its) s g =
     (case s of
        [] \<Rightarrow> None
      | d # r \<Rightarrow> if is_space_py d then match_items its (dropWhile is_space_py r) g else None)"
| "match_items (OneOf cs # its) s g =
     (case s of [] \<Rightarrow> None | d # r \<Rightarrow> if lower_char d \<in> set cs then match_items its r g else None)"

definition at_end :: "string \<Rightarrow> bool" where
  \<comment> \<open>\<^verbatim>\<open>$\<close>: at the end, or before a newline that ends the string\<close>
  "at_end s = (s = [] \<or> s = [CHR 0x0A])"

fun re_unit_end :: "string list \<Rightarrow> string \<Rightarrow> string option option" where
  \<comment> \<open>\<^verbatim>\<open>(u1|u2|...)?$\<close> under \<^verbatim>\<open>re.IGNORECASE\<close>: the alternatives in order, each followed by
      \<^verbatim>\<open>$\<close>, then the empty group; the result is group 2\<close>
  "re_unit_end [] s = (if at_end s then Some None else None)"
| "re_unit_end (u # us) s =
     (if length u \<le> length s \<and> lower_py (take (length u) s) = u \<and> at_end (drop (length u) s)
      then Some (Some (take (length u) s))
      else re_unit_end us s)"

type_synonym pattern = "re_item list \<times> string list"

definition patterns :: "pattern list" where
  "patterns =
     [([Number, Spaces0], [''mm'', ''cm'', ''m'']),
      ([Lit CHR ''+'', Number, Spaces0], [''mm'', ''cm'', ''m'', ''p'', ''v'']),
      ([Number, Spaces0, OneOf ''p'', Spaces0], [''mm'', ''cm'', ''m'']),
      ([Number, Spaces0, OneOf ''v'', Spaces0], [''mm'', ''cm'', ''m'']),
      ([Lit CHR ''+'', Number, Spaces0, OneOf ''pv'', Spaces0], [''mm'', ''cm'', ''m'']),
      ([Number, Spaces0, Lit CHR ''+'', Spaces0, OneOf ''pv'', Spaces0], [''mm'', ''cm'', ''m'']),
      ([Number, Spaces1, Lit CHR ''+'', Spaces0, OneOf ''pv'', Spaces0], [''mm'', ''cm'', ''m''])]"

definition re_match :: "pattern \<Rightarrow> string \<Rightarrow> (string \<times> string option) option" where
  \<comment> \<open>\<^verbatim>\<open>re.match(pattern, text, re.IGNORECASE)\<close>: groups 1 and 2 of a match\<close>
  "re_match pat s =
     (case match_items (fst pat) s None of
        Some (Some g1, r) \<Rightarrow>
          (case re_unit_end (snd pat) r of None \<Rightarrow> None | Some g2 \<Rightarrow> Some (g1, g2))
      | _ \<Rightarrow> None)"

subsection \<open>The parser (main.py, lines 176-225)\<close>

definition digit_val :: "char \<Rightarrow> nat" where
  "digit_val c = of_char c - 48"

definition nat_of_digits :: "string \<Rightarrow> nat" where
  "nat_of_digits ds = foldl (\<lambda>a c. 10 * a + digit_val c) 0 ds"

definition float_py :: "string \<Rightarrow> real" where
  \<comment> \<open>\<^verbatim>\<open>float(s)\<close> for \<open>s\<close> of the form digits, or digits-dot-digits (group 1 after
      \<^verbatim>\<open>replace(',', '.')\<close>), as an exact real\<close>
  "float_py s =
     (let ip = takeWhile is_digit s; fp = drop 1 (dropWhile is_digit s)
      in of_nat (nat_of_digits ip) + of_nat (nat_of_digits fp) / 10 ^ length fp)"

definition replace_comma :: "string \<Rightarrow> string" where
  "replace_comma s = map (\<lambda>c. if c = CHR '','' then CHR ''.'' else c) s"

definition to_millimeters :: "string \<times> string option \<Rightarrow> real" where
  \<comment> \<open>the body of \<^verbatim>\<open>if match:\<close>\<close>
  "to_millimeters m =
     (let value = float_py (replace_comma (fst m)); unit = snd m in
      case unit of
        Some u \<Rightarrow>
          if lower_py u \<in> set [''mm'', ''cm'', ''m''] then
            (if lower_py u = ''cm'' then value * 10
             else if lower_py u = ''m'' then value * 1000
             else value)
          else value
      | None \<Rightarrow> value)"

fun first_match :: "pattern list \<Rightarrow> string \<Rightarrow> real option" where
  \<comment> \<open>the loop over the patterns: the first that matches returns\<close>
  "first_match [] s = None"
| "first_match (pat # pats) s =
     (case re_match pat s of
        Some m \<Rightarrow> Some (to_millimeters m)
      | None \<Rightarrow> first_match pats s)"

definition extract_dimension_value :: "string \<Rightarrow> real option" where
  "extract_dimension_value text_in = first_match patterns (strip_py text_in)"

subsection \<open>The validator (main.py, lines 227-261)\<close>

definition is_valid_dimension :: "string \<Rightarrow> string \<Rightarrow> bool" where
  "is_valid_dimension text_in dtype =
     (if text_in = [] \<or> strip_py text_in = [] then False
      else
        let text_clean = strip_py text_in in
        case extract_dimension_value text_clean of
          None \<Rightarrow> False
        | Some extracted_value \<Rightarrow>
            if dtype = ''plattegrond'' \<and> extracted_value < 500 then False
            else if dtype \<noteq> ''plattegrond'' \<and> extracted_value < 100 then False
            else if extracted_value > 100000 then False
            else True)"

section \<open>Region membership\<close>

subsection \<open>The intersection test of the geometry library\<close>

text \<open>
  \<^verbatim>\<open>LineString([p, q]).intersects(box(minx, miny, maxx, maxy))\<close> belongs to the shapely
  library, not to this repository. It is modelled by what the library documents: the
  closed segment and the closed rectangle spanned by the two corners share a point. The
  test below clips the parameter interval \<open>[0, 1]\<close> of the segment against both axes;
  \<open>linestring_intersects_box_iff\<close> proves that it decides the shared point.
\<close>

definition clip_axis :: "real \<Rightarrow> real \<Rightarrow> real \<Rightarrow> real \<Rightarrow> (real \<times> real) option" where
  \<comment> \<open>the parameters \<open>t\<close> of \<open>[0, 1]\<close> with \<open>lo \<le> a + t * d \<le> hi\<close>, as an interval\<close>
  "clip_axis a d lo hi =
     (if d = 0 then (if lo \<le> a \<and> a \<le> hi then Some (0, 1) else None)
      else
        let t1 = (lo - a) / d; t2 = (hi - a) / d in
        Some (max 0 (min t1 t2), min 1 (max t1 t2)))"

fun linestring_intersects_box :: "real \<times> real \<Rightarrow> real \<times> real \<Rightarrow> real \<times> real \<times> real \<times> real \<Rightarrow> bool" where
  "linestring_intersects_box (ax, ay) (bx, by) (minx, miny, maxx, maxy) =
     (case clip_axis ax (bx - ax) (min minx maxx) (max minx maxx) of
        None \<Rightarrow> False
      | Some (l1, h1) \<Rightarrow>
          (case clip_axis ay (by - ay) (min miny maxy) (max miny maxy) of
             None \<Rightarrow> False
           | Some (l2, h2) \<Rightarrow> max l1 l2 \<le> min h1 h2))"

definition segment_meets_box :: "real \<times> real \<Rightarrow> real \<times> real \<Rightarrow> real \<times> real \<times> real \<times> real \<Rightarrow> bool" where
  \<comment> \<open>some point of the closed segment lies in the closed rectangle\<close>
  "segment_meets_box pa pb bx =
     (\<exists>t. 0 \<le> t \<and> t \<le> 1
        \<and> fst bx \<le> fst pa + t * (fst pb - fst pa)
        \<and> fst pa + t * (fst pb - fst pa) \<le> fst (snd (snd bx))
        \<and> fst (snd bx) \<le> snd pa + t * (snd pb - snd pa)
        \<and> snd pa + t * (snd pb - snd pa) \<le> snd (snd (snd bx)))"

subsection \<open>Lines and texts against a region (main.py, lines 263-304)\<close>

definition in_box :: "real \<times> real \<times> real \<times> real \<Rightarrow> real \<times> real \<Rightarrow> bool" where
  \<comment> \<open>\<^verbatim>\<open>e[0] <= x <= e[2] and e[1] <= y <= e[3]\<close>\<close>
  "in_box e pt =
     (case e of (e0, e1, e2, e3) \<Rightarrow> case pt of (px, py) \<Rightarrow>
        e0 \<le> px \<and> px \<le> e2 \<and> e1 \<le> py \<and> py \<le> e3)"

definition expand_region :: "real \<times> real \<times> real \<times> real \<Rightarrow> real \<times> real \<times> real \<times> real" where
  "expand_region r = (case r of (x1, y1, x2, y2) \<Rightarrow> (x1 - 25, y1 - 25, x2 + 25, y2 + 25))"

definition line_intersects_region :: "real list \<Rightarrow> real list \<Rightarrow> real list \<Rightarrow> error + bool" where
  "line_intersects_region line_p1 line_p2 region =
     bind_res (unpack4 region) (\<lambda>r.
       let expanded_region = expand_region r in
       \<comment> \<open>the loop over the two endpoints, each unpacked when its turn comes\<close>
       bind_res (unpack2 line_p1) (\<lambda>pa.
         if in_box expanded_region pa then Inr True
         else
           bind_res (unpack2 line_p2) (\<lambda>pb.
             if in_box expanded_region pb then Inr True
             else
               case expanded_region of (e0, e1, e2, e3) \<Rightarrow>
               let line_min_x = min (fst pa) (fst pb); line_max_x = max (fst pa) (fst pb);
                   line_min_y = min (snd pa) (snd pb); line_max_y = max (snd pa) (snd pb)
               in
               if line_max_x < e0 \<or> line_min_x > e2 \<or> line_max_y < e1 \<or> line_min_y > e3
               then Inr False
               else Inr (linestring_intersects_box pa pb expanded_region))))"

definition text_overlaps_region :: "VectorText \<Rightarrow> real list \<Rightarrow> error + bool" where
  "text_overlaps_region txt region =
     bind_res (unpack4 region) (\<lambda>r.
       case expand_region r of (e0, e1, e2, e3) \<Rightarrow>
       bind_res (unpack4 (bounding_box txt)) (\<lambda>(text_x1, text_y1, text_x2, text_y2).
         Inr (\<not> (text_x2 < e0 \<or> text_x1 > e2 \<or> text_y2 < e1 \<or> text_y1 > e3))))"

section \<open>Inclusion rules (main.py, lines 306-356)\<close>

definition line_rule :: "real \<Rightarrow> real \<Rightarrow> VectorLine \<Rightarrow> bool" where
  \<comment> \<open>\<^verbatim>\<open>(line.stroke_width <= S and line.length >= L) or line.is_dashed\<close>\<close>
  "line_rule S L line = ((stroke_width line \<le> S \<and> line_length line \<ge> L) \<or> is_dashed line)"

definition should_include_line :: "VectorLine \<Rightarrow> string \<Rightarrow> string \<Rightarrow> bool" where
  "should_include_line line dtype region_label =
     (if dtype = ''bestektekening'' then
        (let region_drawing_type = parse_bestektekening_region_type region_label in
         if region_drawing_type = ''plattegrond'' then line_rule 1.5 50 line
         else if region_drawing_type = ''gevelaanzicht'' then line_rule 1.5 40 line
         else if region_drawing_type = ''doorsnede'' then line_rule 1.5 40 line
         else if region_drawing_type \<in> set [''detailtekening_kozijn'',
                   ''detailtekening_plattegrond'', ''detailtekening''] then line_rule 1.0 20 line
         else line_rule 1.5 30 line)
      else if dtype = ''plattegrond'' then line_rule 1.5 50 line
      else if dtype = ''gevelaanzicht'' then line_rule 1.5 40 line
      else if dtype = ''doorsnede'' then line_rule 1.5 40 line
      else if dtype \<in> set [''detailtekening'', ''detailtekening_kozijn'',
                ''detailtekening_plattegrond''] then line_rule 1.0 20 line
      else if dtype = ''installatietekening'' then False
      else line_rule 1.5 30 line)"

definition should_include_text :: "VectorText \<Rightarrow> string \<Rightarrow> string \<Rightarrow> bool" where
  "should_include_text txt dtype region_label =
     (let effective_drawing_type =
        (if dtype = ''bestektekening'' then parse_bestektekening_region_type region_label
         else dtype)
      in if effective_drawing_type = ''installatietekening'' then False
         else is_valid_dimension (text_content txt) effective_drawing_type)"

section \<open>Duplicate lines (main.py, lines 358-385)\<close>

definition tolerance :: real where
  "tolerance = 1.0"

definition coord_close :: "real list \<Rightarrow> real list \<Rightarrow> nat \<Rightarrow> error + bool" where
  \<comment> \<open>\<^verbatim>\<open>abs(a[i] - b[i]) < tolerance\<close>\<close>
  "coord_close a b i =
     bind_res (index_py a i) (\<lambda>u. bind_res (index_py b i) (\<lambda>v. Inr (\<bar>u - v\<bar> < tolerance)))"

definition point_match :: "real list \<Rightarrow> real list \<Rightarrow> error + bool" where
  \<comment> \<open>the two coordinates joined by \<^verbatim>\<open>and\<close>: the second is read only when the first is close\<close>
  "point_match a b =
     bind_res (coord_close a b 0) (\<lambda>c. if c then coord_close a b 1 else Inr False)"

definition same_segment :: "VectorLine \<Rightarrow> VectorLine \<Rightarrow> error + bool" where
  \<comment> \<open>the body of the inner loop\<close>
  "same_segment line existing_line =
     bind_res (point_match (p1 line) (p1 existing_line)) (\<lambda>p1_match.
     bind_res (point_match (p2 line) (p2 existing_line)) (\<lambda>p2_match.
     bind_res (point_match (p1 line) (p2 existing_line)) (\<lambda>p1_reverse.
     bind_res (point_match (p2 line) (p1 existing_line)) (\<lambda>p2_reverse.
       Inr ((p1_match \<and> p2_match) \<or> (p1_reverse \<and> p2_reverse))))))"

fun is_duplicate :: "VectorLine \<Rightarrow> VectorLine list \<Rightarrow> error + bool" where
  \<comment> \<open>the inner loop, which breaks at the first match\<close>
  "is_duplicate line [] = Inr False"
| "is_duplicate line (existing_line # rest) =
     bind_res (same_segment line existing_line) (\<lambda>d.
       if d then Inr True else is_duplicate line rest)"

fun dedupe_loop :: "VectorLine list \<Rightarrow> VectorLine list \<Rightarrow> error + VectorLine list" where
  \<comment> \<open>the outer loop; the first argument is \<^verbatim>\<open>unique_lines\<close> so far\<close>
  "dedupe_loop unique_lines [] = Inr unique_lines"
| "dedupe_loop unique_lines (line # rest) =
     bind_res (is_duplicate line unique_lines) (\<lambda>d.
       dedupe_loop (if d then unique_lines else unique_lines @ [line]) rest)"

definition remove_duplicate_lines :: "VectorLine list \<Rightarrow> error + VectorLine list" where
  "remove_duplicate_lines ls = dedupe_loop [] ls"

section \<open>The pipeline (main.py, lines 508-660)\<close>

definition step1_lines :: "string \<Rightarrow> VectorLine list \<Rightarrow> VectorLine list" where
  \<comment> \<open>step 1: the permissive rule for a bestektekening, the rule of the type otherwise\<close>
  "step1_lines dtype ls =
     (if dtype = ''bestektekening'' then
        filter (\<lambda>line. (stroke_width line \<le> 1.5 \<and> line_length line \<ge> 20) \<or> is_dashed line) ls
      else filter (\<lambda>line. should_include_line line dtype []) ls)"

definition to_filtered_line :: "VectorLine \<Rightarrow> error + FilteredLine" where
  "to_filtered_line line =
     bind_res (calculate_orientation (p1 line) (p2 line) (angle line)) (\<lambda>ori.
     bind_res (calculate_midpoint (p1 line) (p2 line)) (\<lambda>mid.
       Inr \<lparr>fl_length = line_length line, orientation = ori, midpoint = mid\<rparr>))"

definition to_filtered_text :: "VectorText \<Rightarrow> error + FilteredText" where
  "to_filtered_text txt =
     bind_res (calculate_text_midpoint (bounding_box txt)) (\<lambda>mid.
       Inr \<lparr>ft_text = text_content txt, ft_midpoint = mid\<rparr>)"

fun region_lines :: "string \<Rightarrow> VisionRegion \<Rightarrow> VectorLine list \<Rightarrow> error + FilteredLine list" where
  \<comment> \<open>the loop over \<^verbatim>\<open>unique_filtered_lines\<close> for one region\<close>
  "region_lines dtype region [] = Inr []"
| "region_lines dtype region (line # rest) =
     bind_res (line_intersects_region (p1 line) (p2 line) (coordinate_block region)) (\<lambda>hit.
       if hit then
         (if dtype = ''bestektekening'' then
            (if should_include_line line dtype (label region) then
               bind_res (to_filtered_line line) (\<lambda>fl.
               bind_res (region_lines dtype region rest) (\<lambda>more. Inr (fl # more)))
             else region_lines dtype region rest)
          else
            bind_res (to_filtered_line line) (\<lambda>fl.
            bind_res (region_lines dtype region rest) (\<lambda>more. Inr (fl # more))))
       else region_lines dtype region rest)"

fun region_texts :: "string \<Rightarrow> VisionRegion \<Rightarrow> VectorText list \<Rightarrow> error + FilteredText list" where
  \<comment> \<open>the loop over the texts of the page for one region\<close>
  "region_texts dtype region [] = Inr []"
| "region_texts dtype region (txt # rest) =
     bind_res (text_overlaps_region txt (coordinate_block region)) (\<lambda>hit.
       if hit then
         (if should_include_text txt dtype (label region) then
            bind_res (to_filtered_text txt) (\<lambda>ft.
            bind_res (region_texts dtype region rest) (\<lambda>more. Inr (ft # more)))
          else region_texts dtype region rest)
       else region_texts dtype region rest)"

definition process_region :: "string \<Rightarrow> VectorLine list \<Rightarrow> VectorText list \<Rightarrow> VisionRegion \<Rightarrow> error + RegionData" where
  \<comment> \<open>one turn of the loop over the regions\<close>
  "process_region dtype unique_filtered_lines page_texts region =
     (let parsed =
        (if dtype = ''bestektekening'' then Some (parse_bestektekening_region_type (label region))
         else None)
      in
      bind_res (region_lines dtype region unique_filtered_lines) (\<lambda>rlines.
      bind_res (region_texts dtype region page_texts) (\<lambda>rtexts.
        Inr \<lparr>rd_label = label region, rd_lines = rlines, rd_texts = rtexts,
             parsed_drawing_type = parsed\<rparr>)))"

fun process_regions :: "(VisionRegion \<Rightarrow> error + RegionData) \<Rightarrow> VisionRegion list \<Rightarrow> error + RegionData list" where
  \<comment> \<open>the loop over the regions: the first exception ends it\<close>
  "process_regions f [] = Inr []"
| "process_regions f (region # rest) =
     bind_res (f region) (\<lambda>rd.
     bind_res (process_regions f rest) (\<lambda>more. Inr (rd # more)))"

definition filter_body :: "FilterInput \<Rightarrow> error + CleanOutput" where
  \<comment> \<open>the \<^verbatim>\<open>try\<close> block of \<^verbatim>\<open>filter_clean\<close>\<close>
  "filter_body input_data =
     (case pages (vector_data input_data) of
        [] \<Rightarrow> Inl (HTTPException 400)
      | vector_page # _ \<Rightarrow>
          let dtype = drawing_type (vision_output input_data);
              regs = regions (vision_output input_data)
          in
          if dtype = ''installatietekening'' then
            Inr \<lparr>out_drawing_type = dtype, out_regions = []\<rparr>
          else
            let filtered_lines = step1_lines dtype (lines vector_page) in
            bind_res (if length filtered_lines > 0 then remove_duplicate_lines filtered_lines
                      else Inr filtered_lines) (\<lambda>unique_filtered_lines.
            bind_res (process_regions
                        (process_region dtype unique_filtered_lines (texts vector_page)) regs)
              (\<lambda>region_outputs.
                Inr \<lparr>out_drawing_type = dtype, out_regions = region_outputs\<rparr>)))"

definition filter_clean :: "FilterInput \<Rightarrow> error + CleanOutput" where
  \<comment> \<open>\<^verbatim>\<open>except Exception\<close> turns every exception of the block, the 400 of the empty page
      list with it, into the status 500\<close>
  "filter_clean input_data =
     (case filter_body input_data of
        Inl e \<Rightarrow> Inl (HTTPException 500)
      | Inr output \<Rightarrow> Inr output)"

section \<open>Notions used to state the properties\<close>

definition wf_line :: "VectorLine \<Rightarrow> bool" where
  \<comment> \<open>both endpoints are coordinate pairs\<close>
  "wf_line l = (length (p1 l) = 2 \<and> length (p2 l) = 2)"

definition wf_region :: "VisionRegion \<Rightarrow> bool" where
  \<comment> \<open>the coordinate block has its four numbers\<close>
  "wf_region r = (length (coordinate_block r) = 4)"

definition wf_text :: "VectorText \<Rightarrow> bool" where
  \<comment> \<open>the bounding box has its four numbers\<close>
  "wf_text t = (length (bounding_box t) = 4)"

definition hits :: "VectorLine \<Rightarrow> VisionRegion \<Rightarrow> bool" where
  \<comment> \<open>the membership test of the line in the region returns true\<close>
  "hits l r = (line_intersects_region (p1 l) (p2 l) (coordinate_block r) = Inr True)"

definition spec_thresholds :: "string \<Rightarrow> real \<times> real" where
  \<comment> \<open>the table of the specification: the largest stroke width and the smallest length of
      a sub-type\<close>
  "spec_thresholds t =
     (if t = ''plattegrond'' then (1.5, 50)
      else if t = ''gevelaanzicht'' \<or> t = ''doorsnede'' then (1.5, 40)
      else if t = ''detailtekening'' \<or> t = ''detailtekening_kozijn''
           \<or> t = ''detailtekening_plattegrond'' then (1.0, 20)
      else (1.5, 30))"

definition no_duplicates :: "VectorLine list \<Rightarrow> bool" where
  \<comment> \<open>no line of the list matches a line before it\<close>
  "no_duplicates u = (\<forall>i < length u. is_duplicate (u ! i) (take i u) = Inr False)"

subsection \<open>An example input\<close>

definition example_line :: VectorLine where
  "example_line =
     \<lparr>p1 = [0, 0], p2 = [100, 0], stroke_width = 1.0, line_length = 100, color = [0, 0, 0],
      is_dashed = False, angle = None\<rparr>"

definition example_input :: "string \<Rightarrow> string \<Rightarrow> real list \<Rightarrow> FilterInput" where
  \<comment> \<open>one page with one line and no text, and one region\<close>
  "example_input dt lbl block =
     \<lparr>vector_data = \<lparr>page_number = 1, pages =
        [\<lparr>page_size = [(''width'', 595), (''height'', 842)], lines = [example_line],
          texts = []\<rparr>]\<rparr>,
      vision_output = \<lparr>drawing_type = dt,
        regions = [\<lparr>label = lbl, coordinate_block = block\<rparr>]\<rparr>\<rparr>"

subsection \<open>The shapes of dimension texts\<close>

definition digits :: "string \<Rightarrow> bool" where
  \<comment> \<open>a non-empty run of decimal digits\<close>
  "digits ds = (ds \<noteq> [] \<and> list_all is_digit ds)"

definition number_literal :: "string \<Rightarrow> bool" where
  \<comment> \<open>digits, or digits, a comma or a dot, and digits\<close>
  "number_literal n =
     (digits n \<or>
      (\<exists>ip sep fp. n = ip @ sep # fp \<and> digits ip \<and> digits fp \<and>
         (sep = CHR '','' \<or> sep = CHR ''.'')))"

definition spaces :: "string \<Rightarrow> bool" where
  \<comment> \<open>white space only, possibly none\<close>
  "spaces ws = list_all is_space_py ws"

definition marker :: "char \<Rightarrow> bool" where
  \<comment> \<open>one of p, P, v, V\<close>
  "marker c = (c \<in> set ''pPvV'')"

definition unit_text :: "string \<Rightarrow> bool" where
  \<comment> \<open>no unit, or mm, cm, m in any case\<close>
  "unit_text u = (u = [] \<or> lower_py u \<in> set [''mm'', ''cm'', ''m''])"

definition mm_per_unit :: "string \<Rightarrow> real" where
  \<comment> \<open>millimeters per unit\<close>
  "mm_per_unit u =
     (if lower_py u = ''cm'' then 10 else if lower_py u = ''m'' then 1000 else 1)"

definition literal_value :: "string \<Rightarrow> real" where
  \<comment> \<open>the number a literal denotes, the comma read as a decimal point\<close>
  "literal_value n = float_py (replace_comma n)"

definition stops_number :: "string \<Rightarrow> bool" where
  \<comment> \<open>a rest that cannot continue a numeric literal\<close>
  "stops_number rest =
     (case rest of [] \<Rightarrow> True | c # _ \<Rightarrow> \<not> is_digit c \<and> c \<noteq> CHR '','' \<and> c \<noteq> CHR ''.'')"

definition unit_tail :: "string \<Rightarrow> string \<Rightarrow> string" where
  \<comment> \<open>white space and a unit, as \<^verbatim>\<open>strip\<close> leaves them at the end of a text\<close>
  "unit_tail ws u = (if u = [] then [] else ws @ u)"

subsection \<open>The tag of a region label\<close>


section \<open>Properties\<close>

lemma bind_res_simps:
  "bind_res (Inl e) f = Inl e"
  "bind_res (Inr v) f = f v"
  by (simp_all add: bind_res_def)

subsection \<open>Coordinate lists of the right arity\<close>

lemma length2E: "length xs = 2 \<Longrightarrow> \<exists>a b. xs = [a, b]"
  by (cases xs; cases "tl xs"; auto)

lemma length4E: "length xs = 4 \<Longrightarrow> \<exists>a b c d. xs = [a, b, c, d]"
proof -
  assume "length xs = 4"
  then obtain a ys where 1: "xs = a # ys" "length ys = 3" by (cases xs) auto
  then obtain b zs where 2: "ys = b # zs" "length zs = 2" by (cases ys) auto
  then obtain c d where "zs = [c, d]" using length2E by blast
  with 1 2 show ?thesis by blast
qed

lemma unpack2_pair [simp]: "unpack2 [a, b] = Inr (a, b)"
  by (simp add: unpack2_def)

lemma unpack4_quad [simp]: "unpack4 [a, b, c, d] = Inr (a, b, c, d)"
  by (simp add: unpack4_def)

lemma line_intersects_region_total:
  assumes "length pa = 2" "length pb = 2" "length r = 4"
  shows "\<exists>b. line_intersects_region pa pb r = Inr b"
proof -
  obtain a1 a2 where pa: "pa = [a1, a2]" using assms(1) length2E by blast
  obtain b1 b2 where pb: "pb = [b1, b2]" using assms(2) length2E by blast
  obtain x1 y1 x2 y2 where r: "r = [x1, y1, x2, y2]" using assms(3) length4E by blast
  show ?thesis unfolding pa pb r
    by (auto simp add: line_intersects_region_def bind_res_simps expand_region_def Let_def)
qed

lemma to_filtered_line_total:
  assumes "wf_line l"
  shows "\<exists>fl. to_filtered_line l = Inr fl"
proof -
  obtain a1 a2 where pa: "p1 l = [a1, a2]" using assms length2E unfolding wf_line_def by blast
  obtain b1 b2 where pb: "p2 l = [b1, b2]" using assms length2E unfolding wf_line_def by blast
  show ?thesis
    by (cases "angle l")
      (simp_all add: to_filtered_line_def calculate_orientation_def calculate_midpoint_def
        index_py_def bind_res_simps pa pb Let_def)
qed

lemma text_overlaps_region_total:
  assumes "wf_text t" "wf_region r"
  shows "\<exists>b. text_overlaps_region t (coordinate_block r) = Inr b"
proof -
  obtain a b c d where bb: "bounding_box t = [a, b, c, d]"
    using assms(1) length4E unfolding wf_text_def by blast
  obtain x1 y1 x2 y2 where r: "coordinate_block r = [x1, y1, x2, y2]"
    using assms(2) length4E unfolding wf_region_def by blast
  show ?thesis
    by (simp add: text_overlaps_region_def bind_res_simps expand_region_def bb r)
qed

lemma to_filtered_text_total:
  assumes "wf_text t"
  shows "\<exists>ft. to_filtered_text t = Inr ft"
proof -
  obtain a b c d where bb: "bounding_box t = [a, b, c, d]"
    using assms length4E unfolding wf_text_def by blast
  show ?thesis
    by (simp add: to_filtered_text_def calculate_text_midpoint_def index_py_def bind_res_simps bb)
qed

subsection \<open>The loops of a region\<close>

lemma region_lines_wf:
  assumes "\<forall>l\<in>set ls. wf_line l" "wf_region r"
  shows "\<exists>out. region_lines dt r ls = Inr out \<and>
     map Inr out = map to_filtered_line
       (filter (\<lambda>l. hits l r \<and> (dt = ''bestektekening'' \<longrightarrow> should_include_line l dt (label r))) ls)"
  using assms(1)
proof (induction ls)
  case Nil
  then show ?case by simp
next
  case (Cons l ls)
  then obtain out where out: "region_lines dt r ls = Inr out"
    "map Inr out = map to_filtered_line
       (filter (\<lambda>l. hits l r \<and> (dt = ''bestektekening'' \<longrightarrow> should_include_line l dt (label r))) ls)"
    by auto
  from Cons.prems have wl: "wf_line l" by simp
  then obtain b where b: "line_intersects_region (p1 l) (p2 l) (coordinate_block r) = Inr b"
    using line_intersects_region_total assms(2) unfolding wf_line_def wf_region_def by blast
  obtain fl where fl: "to_filtered_line l = Inr fl" using to_filtered_line_total wl by blast
  show ?case
    using out b fl by (auto simp add: bind_res_simps hits_def)
qed

lemma region_texts_wf:
  assumes "\<forall>t\<in>set ts. wf_text t" "wf_region r"
  shows "\<exists>out. region_texts dt r ts = Inr out"
  using assms(1)
proof (induction ts)
  case Nil
  then show ?case by simp
next
  case (Cons t ts)
  then obtain out where out: "region_texts dt r ts = Inr out" by auto
  from Cons.prems have wt: "wf_text t" by simp
  then obtain b where b: "text_overlaps_region t (coordinate_block r) = Inr b"
    using text_overlaps_region_total assms(2) by blast
  obtain ft where ft: "to_filtered_text t = Inr ft" using to_filtered_text_total wt by blast
  show ?case
    using out b ft by (auto simp add: bind_res_simps)
qed

lemma process_region_wf:
  assumes "\<forall>l\<in>set ls. wf_line l" "\<forall>t\<in>set ts. wf_text t" "wf_region r"
  shows "\<exists>rd. process_region dt ls ts r = Inr rd \<and> rd_label rd = label r \<and>
     parsed_drawing_type rd =
       (if dt = ''bestektekening'' then Some (parse_bestektekening_region_type (label r)) else None) \<and>
     map Inr (rd_lines rd) = map to_filtered_line
       (filter (\<lambda>l. hits l r \<and> (dt = ''bestektekening'' \<longrightarrow> should_include_line l dt (label r))) ls)"
proof -
  obtain rl where rl: "region_lines dt r ls = Inr rl"
    "map Inr rl = map to_filtered_line
       (filter (\<lambda>l. hits l r \<and> (dt = ''bestektekening'' \<longrightarrow> should_include_line l dt (label r))) ls)"
    using region_lines_wf [OF assms(1) assms(3)] by blast
  obtain rt where rt: "region_texts dt r ts = Inr rt"
    using region_texts_wf [OF assms(2) assms(3)] by blast
  show ?thesis
    using rl(2) by (simp add: process_region_def rl(1) rt bind_res_simps)
qed

lemma process_regions_labels:
  "process_regions (process_region dt ls ts) rs = Inr out \<Longrightarrow> map rd_label out = map label rs"
proof (induction rs arbitrary: out)
  case Nil
  then show ?case by simp
next
  case (Cons r rs)
  from Cons.prems obtain rd more where
    rd: "process_region dt ls ts r = Inr rd" and
    more: "process_regions (process_region dt ls ts) rs = Inr more" and
    out: "out = rd # more"
    by (auto simp add: bind_res_def split: sum.splits)
  from rd have "rd_label rd = label r"
    by (auto simp add: process_region_def bind_res_def split: sum.splits)
  with Cons.IH [OF more] out show ?case by simp
qed

lemma process_regions_wf:
  assumes "\<forall>l\<in>set ls. wf_line l" "\<forall>t\<in>set ts. wf_text t" "\<forall>r\<in>set rs. wf_region r"
  shows "\<exists>out. process_regions (process_region dt ls ts) rs = Inr out \<and>
     map (\<lambda>rd. map Inr (rd_lines rd)) out =
     map (\<lambda>r. map to_filtered_line
       (filter (\<lambda>l. hits l r \<and> (dt = ''bestektekening'' \<longrightarrow> should_include_line l dt (label r))) ls)) rs"
  using assms(3)
proof (induction rs)
  case Nil
  then show ?case by simp
next
  case (Cons r rs)
  then obtain more where more: "process_regions (process_region dt ls ts) rs = Inr more"
    "map (\<lambda>rd. map Inr (rd_lines rd)) more =
     map (\<lambda>r. map to_filtered_line
       (filter (\<lambda>l. hits l r \<and> (dt = ''bestektekening'' \<longrightarrow> should_include_line l dt (label r))) ls)) rs"
    by auto
  from Cons.prems have "wf_region r" by simp
  then obtain rd where rd: "process_region dt ls ts r = Inr rd"
    "map Inr (rd_lines rd) = map to_filtered_line
       (filter (\<lambda>l. hits l r \<and> (dt = ''bestektekening'' \<longrightarrow> should_include_line l dt (label r))) ls)"
    using process_region_wf [OF assms(1) assms(2)] by blast
  show ?case
    using more(2) rd(2) by (simp add: more(1) rd(1) bind_res_simps)
qed

subsection \<open>The loops of the deduplication\<close>

lemma point_match_total:
  assumes "length a = 2" "length b = 2"
  shows "\<exists>c. point_match a b = Inr c"
  using assms by (auto simp add: point_match_def coord_close_def index_py_def bind_res_simps)

lemma same_segment_total:
  assumes "wf_line a" "wf_line b"
  shows "\<exists>d. same_segment a b = Inr d"
proof -
  obtain m1 where m1: "point_match (p1 a) (p1 b) = Inr m1"
    using point_match_total assms unfolding wf_line_def by blast
  obtain m2 where m2: "point_match (p2 a) (p2 b) = Inr m2"
    using point_match_total assms unfolding wf_line_def by blast
  obtain m3 where m3: "point_match (p1 a) (p2 b) = Inr m3"
    using point_match_total assms unfolding wf_line_def by blast
  obtain m4 where m4: "point_match (p2 a) (p1 b) = Inr m4"
    using point_match_total assms unfolding wf_line_def by blast
  show ?thesis by (auto simp add: same_segment_def m1 m2 m3 m4 bind_res_simps)
qed

lemma is_duplicate_total:
  assumes "wf_line l" "\<forall>e\<in>set es. wf_line e"
  shows "\<exists>d. is_duplicate l es = Inr d"
  using assms(2)
proof (induction es)
  case Nil
  show ?case by (rule exI [of _ False]) simp
next
  case (Cons e es)
  then obtain d where d: "is_duplicate l es = Inr d" by auto
  have "wf_line e" using Cons.prems by simp
  then obtain s where s: "same_segment l e = Inr s"
    using same_segment_total [OF assms(1)] by blast
  show ?case by (cases s) (auto simp add: d s bind_res_simps)
qed

lemma dedupe_loop_total:
  assumes "\<forall>e\<in>set acc. wf_line e" "\<forall>e\<in>set ls. wf_line e"
  shows "\<exists>u. dedupe_loop acc ls = Inr u"
  using assms
proof (induction ls arbitrary: acc)
  case Nil
  then show ?case by simp
next
  case (Cons l ls)
  have "wf_line l" using Cons.prems(2) by simp
  then obtain d where d: "is_duplicate l acc = Inr d"
    using is_duplicate_total [OF _ Cons.prems(1)] by blast
  have "\<forall>e\<in>set (if d then acc else acc @ [l]). wf_line e"
    using Cons.prems by auto
  then obtain u where "dedupe_loop (if d then acc else acc @ [l]) ls = Inr u"
    using Cons.IH Cons.prems(2) by fastforce
  then show ?case by (simp add: d bind_res_simps)
qed

lemma dedupe_loop_subseq:
  "dedupe_loop acc ls = Inr u \<Longrightarrow> \<exists>v. u = acc @ v \<and> subseq v ls"
proof (induction ls arbitrary: acc)
  case Nil
  then show ?case by simp
next
  case (Cons l ls)
  from Cons.prems obtain d where d: "is_duplicate l acc = Inr d"
    and rest: "dedupe_loop (if d then acc else acc @ [l]) ls = Inr u"
    by (auto simp add: bind_res_def split: sum.splits)
  from Cons.IH [OF rest] obtain v where v: "u = (if d then acc else acc @ [l]) @ v" "subseq v ls"
    by blast
  show ?case
  proof (cases d)
    case True
    with v show ?thesis by auto
  next
    case False
    with v have "u = acc @ (l # v)" "subseq (l # v) (l # ls)" by auto
    then show ?thesis by blast
  qed
qed

lemma remove_duplicate_lines_wf:
  assumes "\<forall>e\<in>set ls. wf_line e"
  shows "\<exists>u. remove_duplicate_lines ls = Inr u \<and> (\<forall>e\<in>set u. wf_line e)"
proof -
  obtain u where u: "dedupe_loop [] ls = Inr u"
    using dedupe_loop_total [of "[]" ls] assms by auto
  then obtain v where "u = v" "subseq v ls" using dedupe_loop_subseq by fastforce
  then have "set u \<subseteq> set ls" by (auto dest: list_emb_set)
  with u assms show ?thesis by (auto simp add: remove_duplicate_lines_def)
qed

subsection \<open>The pipeline as a whole\<close>

lemma filter_body_success:
  assumes "pages (vector_data inp) = page # others"
    and "drawing_type (vision_output inp) \<noteq> ''installatietekening''"
    and "remove_duplicate_lines (step1_lines (drawing_type (vision_output inp)) (lines page)) = Inr uniq"
    and "process_regions (process_region (drawing_type (vision_output inp)) uniq (texts page))
           (regions (vision_output inp)) = Inr ros"
  shows "filter_clean inp =
    Inr \<lparr>out_drawing_type = drawing_type (vision_output inp), out_regions = ros\<rparr>"
proof -
  have "(if 0 < length (step1_lines (drawing_type (vision_output inp)) (lines page))
         then remove_duplicate_lines (step1_lines (drawing_type (vision_output inp)) (lines page))
         else Inr (step1_lines (drawing_type (vision_output inp)) (lines page))) = Inr uniq"
    using assms(3) by (auto simp add: remove_duplicate_lines_def)
  then show ?thesis
    using assms(1,2,4) by (simp add: filter_clean_def filter_body_def Let_def bind_res_simps)
qed

lemma filter_clean_wf:
  assumes "pages (vector_data inp) = page # others"
    and "drawing_type (vision_output inp) \<noteq> ''installatietekening''"
    and "\<forall>l\<in>set (lines page). wf_line l"
    and "\<forall>t\<in>set (texts page). wf_text t"
    and "\<forall>r\<in>set (regions (vision_output inp)). wf_region r"
  shows "\<exists>uniq ros.
     remove_duplicate_lines (step1_lines (drawing_type (vision_output inp)) (lines page)) = Inr uniq \<and>
     filter_clean inp = Inr \<lparr>out_drawing_type = drawing_type (vision_output inp), out_regions = ros\<rparr> \<and>
     map rd_label ros = map label (regions (vision_output inp)) \<and>
     map (\<lambda>rd. map Inr (rd_lines rd)) ros =
     map (\<lambda>r. map to_filtered_line
       (filter (\<lambda>l. hits l r \<and> (drawing_type (vision_output inp) = ''bestektekening'' \<longrightarrow>
            should_include_line l (drawing_type (vision_output inp)) (label r))) uniq))
       (regions (vision_output inp))"
proof -
  let ?dt = "drawing_type (vision_output inp)"
  have "\<forall>l\<in>set (step1_lines ?dt (lines page)). wf_line l"
    using assms(3) by (auto simp add: step1_lines_def)
  then obtain uniq where uniq: "remove_duplicate_lines (step1_lines ?dt (lines page)) = Inr uniq"
    "\<forall>l\<in>set uniq. wf_line l"
    using remove_duplicate_lines_wf by blast
  obtain ros where ros: "process_regions (process_region ?dt uniq (texts page))
       (regions (vision_output inp)) = Inr ros"
    "map (\<lambda>rd. map Inr (rd_lines rd)) ros =
     map (\<lambda>r. map to_filtered_line
       (filter (\<lambda>l. hits l r \<and> (?dt = ''bestektekening'' \<longrightarrow>
            should_include_line l ?dt (label r))) uniq))
       (regions (vision_output inp))"
    using process_regions_wf [OF uniq(2) assms(4) assms(5)] by blast
  have "filter_clean inp = Inr \<lparr>out_drawing_type = ?dt, out_regions = ros\<rparr>"
    using filter_body_success [OF assms(1) assms(2) uniq(1) ros(1)] .
  moreover have "map rd_label ros = map label (regions (vision_output inp))"
    using process_regions_labels [OF ros(1)] .
  ultimately show ?thesis using uniq(1) ros(2) by blast
qed

lemma filter_clean_complete:
  assumes "filter_clean inp = Inr out"
  shows "out_drawing_type out = drawing_type (vision_output inp) \<and>
    (if drawing_type (vision_output inp) = ''installatietekening'' then out_regions out = []
     else map rd_label (out_regions out) = map label (regions (vision_output inp)))"
proof -
  from assms have body: "filter_body inp = Inr out"
    by (auto simp add: filter_clean_def split: sum.splits)
  then obtain page others where pg: "pages (vector_data inp) = page # others"
    by (cases "pages (vector_data inp)") (auto simp add: filter_body_def)
  show ?thesis
  proof (cases "drawing_type (vision_output inp) = ''installatietekening''")
    case True
    with body pg show ?thesis by (auto simp add: filter_body_def)
  next
    case False
    with body pg obtain uniq ros where
      "process_regions (process_region (drawing_type (vision_output inp)) uniq (texts page))
         (regions (vision_output inp)) = Inr ros"
      "out = \<lparr>out_drawing_type = drawing_type (vision_output inp), out_regions = ros\<rparr>"
      by (auto simp add: filter_body_def Let_def bind_res_def split: sum.splits if_splits)
    with False process_regions_labels show ?thesis by auto
  qed
qed

lemma filter_clean_failure:
  "filter_clean inp = Inl e \<Longrightarrow> e = HTTPException 500"
  by (auto simp add: filter_clean_def split: sum.splits)

subsection \<open>Characters\<close>

lemma eq_char_of_iff: "c = char_of (n::nat) \<longleftrightarrow> of_char c = take_bit 8 n"
  using char_of_eq_iff [of n c] by auto

lemmas char_eval = is_space_py_def is_digit_def lower_char_def lower_py_def
  char_of_eq_iff eq_char_of_iff

lemma lower_char_eq_p: "lower_char c = CHR ''p'' \<longleftrightarrow> c = CHR ''p'' \<or> c = CHR ''P''"
  by (cases c) (auto simp: lower_char_def Let_def char_of_eq_iff eq_char_of_iff split: if_splits)

lemma lower_char_eq_v: "lower_char c = CHR ''v'' \<longleftrightarrow> c = CHR ''v'' \<or> c = CHR ''V''"
  by (cases c) (auto simp: lower_char_def Let_def char_of_eq_iff eq_char_of_iff split: if_splits)

lemma lower_char_eq_m: "lower_char c = CHR ''m'' \<longleftrightarrow> c = CHR ''m'' \<or> c = CHR ''M''"
  by (cases c) (auto simp: lower_char_def Let_def char_of_eq_iff eq_char_of_iff split: if_splits)

lemma lower_char_eq_c: "lower_char c = CHR ''c'' \<longleftrightarrow> c = CHR ''c'' \<or> c = CHR ''C''"
  by (cases c) (auto simp: lower_char_def Let_def char_of_eq_iff eq_char_of_iff split: if_splits)

lemma digit_not_space: "is_digit c \<Longrightarrow> \<not> is_space_py c"
  by (auto simp: is_digit_def is_space_py_def)

lemma marker_iff: "marker c \<longleftrightarrow> lower_char c = CHR ''p'' \<or> lower_char c = CHR ''v''"
  by (auto simp: marker_def lower_char_eq_p lower_char_eq_v)

lemma marker_props:
  assumes "marker c"
  shows "\<not> is_space_py c" "\<not> is_digit c" "c \<noteq> CHR '',''" "c \<noteq> CHR ''.''" "c \<noteq> CHR ''+''"
    "c \<noteq> CHR 0x0A" "lower_char c \<noteq> CHR ''m''" "lower_char c \<noteq> CHR ''c''"
  using assms by (auto simp: marker_def char_eval)

lemma unit_text_cases:
  assumes "unit_text u"
  obtains "u = []"
  | a where "u = [a]" "lower_char a = CHR ''m''"
  | a b where "u = [a, b]" "lower_char a = CHR ''m''" "lower_char b = CHR ''m''"
  | a b where "u = [a, b]" "lower_char a = CHR ''c''" "lower_char b = CHR ''m''"
  using assms unfolding unit_text_def lower_py_def by (auto simp: map_eq_Cons_conv)

lemma unit_letter_props:
  assumes "lower_char a = CHR ''m'' \<or> lower_char a = CHR ''c''"
  shows "\<not> is_space_py a" "\<not> is_digit a" "a \<noteq> CHR '',''" "a \<noteq> CHR ''.''" "a \<noteq> CHR 0x0A"
    "lower_char a \<noteq> CHR ''p''" "lower_char a \<noteq> CHR ''v''"
  using assms by (auto simp: lower_char_eq_m lower_char_eq_c char_eval)

subsection \<open>The items of the patterns on texts of a known shape\<close>

lemma digits_props:
  assumes "digits ds"
  shows "ds \<noteq> []" "is_digit (hd ds)" "is_digit (last ds)" "\<forall>c\<in>set ds. is_digit c"
  using assms by (auto simp: digits_def list_all_iff)

lemma number_literal_props:
  assumes "number_literal n"
  shows "n \<noteq> []" "is_digit (hd n)" "is_digit (last n)"
  using assms digits_props
  by (auto simp: number_literal_def hd_append)

lemma takeWhile_digits:
  assumes "digits ds" "rest = [] \<or> \<not> is_digit (hd rest)"
  shows "takeWhile is_digit (ds @ rest) = ds" "dropWhile is_digit (ds @ rest) = rest"
proof -
  have all: "\<forall>c\<in>set ds. is_digit c" using assms(1) by (rule digits_props)
  have t: "takeWhile is_digit rest = []" and d: "dropWhile is_digit rest = rest"
    using assms(2) by (cases rest; simp)+
  show "takeWhile is_digit (ds @ rest) = ds" using all t by (simp add: takeWhile_append2)
  show "dropWhile is_digit (ds @ rest) = rest" using all d by (simp add: dropWhile_append2)
qed

lemma re_digits_append:
  assumes "digits ds" "rest = [] \<or> \<not> is_digit (hd rest)"
  shows "re_digits (ds @ rest) = Some (ds, rest)"
  using takeWhile_digits [OF assms] digits_props(1) [OF assms(1)]
  by (simp add: re_digits_def)

lemma re_number_literal:
  assumes "number_literal n" "stops_number rest"
  shows "re_number (n @ rest) = Some (n, rest)"
proof -
  have nd: "rest = [] \<or> \<not> is_digit (hd rest)"
    using assms(2) by (cases rest) (simp_all add: stops_number_def)
  from assms(1) consider (int) "digits n"
    | (frac) ip sep fp where "n = ip @ sep # fp" "digits ip" "digits fp"
        "sep = CHR '','' \<or> sep = CHR ''.''"
    unfolding number_literal_def by blast
  then show ?thesis
  proof cases
    case int
    have "re_digits (n @ rest) = Some (n, rest)" using int nd by (rule re_digits_append)
    then show ?thesis
      using assms(2) by (cases rest) (auto simp add: re_number_def stops_number_def)
  next
    case frac
    have sepnd: "\<not> is_digit sep" using frac(4) by (auto simp: is_digit_def)
    have 1: "re_digits (ip @ (sep # fp @ rest)) = Some (ip, sep # fp @ rest)"
      using frac(2) sepnd by (intro re_digits_append) simp_all
    have 2: "re_digits (fp @ rest) = Some (fp, rest)"
      using frac(3) nd by (rule re_digits_append)
    show ?thesis
      using 1 2 frac(4) by (auto simp add: re_number_def frac(1))
  qed
qed

lemma re_number_plus: "re_number (CHR ''+'' # r) = None"
  by (simp add: re_number_def re_digits_def is_digit_def)

lemma drop_spaces:
  assumes "spaces ws" "rest = [] \<or> \<not> is_space_py (hd rest)"
  shows "dropWhile is_space_py (ws @ rest) = rest"
proof -
  have "\<forall>c\<in>set ws. is_space_py c" using assms(1) by (simp add: spaces_def list_all_iff)
  moreover have "dropWhile is_space_py rest = rest" using assms(2) by (cases rest) simp_all
  ultimately show ?thesis by (simp add: dropWhile_append2)
qed

lemma space_not_numeric:
  "is_space_py c \<Longrightarrow> \<not> is_digit c \<and> c \<noteq> CHR '','' \<and> c \<noteq> CHR ''.''"
  by (auto simp: is_space_py_def is_digit_def)

lemma stops_number_spaces:
  assumes "spaces ws" "stops_number rest"
  shows "stops_number (ws @ rest)"
proof (cases ws)
  case Nil
  then show ?thesis using assms(2) by simp
next
  case (Cons c cs)
  then have "is_space_py c" using assms(1) by (simp add: spaces_def)
  then show ?thesis using Cons space_not_numeric by (simp add: stops_number_def)
qed

lemma stops_number_unit: "unit_text u \<Longrightarrow> stops_number u"
  by (erule unit_text_cases)
    (auto simp: stops_number_def lower_char_eq_m lower_char_eq_c is_digit_def)

lemma stops_number_marker: "marker c \<Longrightarrow> stops_number (c # r)"
  by (simp add: stops_number_def marker_props)

lemma stops_number_plus: "stops_number (CHR ''+'' # r)"
  by (simp add: stops_number_def is_digit_def)

lemma unit_starts: "unit_text u \<Longrightarrow> u = [] \<or> \<not> is_space_py (hd u)"
  by (erule unit_text_cases)
    (auto simp: lower_char_eq_m lower_char_eq_c is_space_py_def)

lemma unit_ends: "unit_text u \<Longrightarrow> u \<noteq> [] \<Longrightarrow> \<not> is_space_py (last u)"
  by (erule unit_text_cases)
    (auto simp: lower_char_eq_m lower_char_eq_c is_space_py_def)

lemma tail_drop:
  assumes "spaces ws" "unit_text u"
  shows "dropWhile is_space_py (unit_tail ws u) = u"
  using drop_spaces [OF assms(1) unit_starts [OF assms(2)]] by (simp add: unit_tail_def)

lemma tail_stops:
  assumes "spaces ws" "unit_text u"
  shows "stops_number (unit_tail ws u)"
  using stops_number_spaces [OF assms(1) stops_number_unit [OF assms(2)]]
  by (simp add: unit_tail_def stops_number_def)

subsection \<open>The unit group\<close>

lemma unit_end_three:
  assumes "unit_text u"
  shows "re_unit_end [''mm'', ''cm'', ''m''] u = Some (if u = [] then None else Some u)"
  using assms
  by (rule unit_text_cases) (auto simp add: at_end_def lower_py_def)

lemma unit_end_five:
  assumes "unit_text u"
  shows "re_unit_end [''mm'', ''cm'', ''m'', ''p'', ''v''] u = Some (if u = [] then None else Some u)"
  using assms
  by (rule unit_text_cases) (auto simp add: at_end_def lower_py_def)

lemma unit_end_three_fails:
  assumes "marker c \<or> c = CHR ''+''"
  shows "re_unit_end [''mm'', ''cm'', ''m''] (c # r) = None"
proof -
  have "lower_char c \<noteq> CHR ''m''" "lower_char c \<noteq> CHR ''c''" "c \<noteq> CHR 0x0A"
    using assms by (auto simp: marker_def lower_char_eq_m lower_char_eq_c)
  then show ?thesis by (simp add: at_end_def lower_py_def)
qed

lemma unit_end_five_marker:
  assumes "marker c" "spaces ws" "unit_text u"
  shows "re_unit_end [''mm'', ''cm'', ''m'', ''p'', ''v''] (c # unit_tail ws u) =
    (if u = [] then Some (Some [c]) else None)"
proof -
  have c: "lower_char c \<noteq> CHR ''m''" "lower_char c \<noteq> CHR ''c''" "c \<noteq> CHR 0x0A"
    "lower_char c = CHR ''p'' \<or> lower_char c = CHR ''v''"
    using assms(1) marker_props [OF assms(1)] marker_iff by auto
  show ?thesis
  proof (cases "u = []")
    case True
    then show ?thesis using c by (auto simp add: unit_tail_def at_end_def lower_py_def)
  next
    case False
    have "\<not> at_end (ws @ u)"
      using assms(3) False
      by (elim unit_text_cases)
        (auto simp add: at_end_def append_eq_Cons_conv lower_char_eq_m lower_char_eq_c)
    then show ?thesis using c False
      by (auto simp add: unit_tail_def at_end_def lower_py_def)
  qed
qed

subsection \<open>The conversion\<close>

lemma to_millimeters_unit:
  assumes "unit_text u"
  shows "to_millimeters (n, if u = [] then None else Some u) = literal_value n * mm_per_unit u"
  using assms
  by (auto simp add: to_millimeters_def literal_value_def mm_per_unit_def unit_text_def Let_def
      lower_py_def)

lemma to_millimeters_marker:
  assumes "marker c"
  shows "to_millimeters (n, Some [c]) = literal_value n"
  using marker_props(7,8) [OF assms]
  by (simp add: to_millimeters_def literal_value_def Let_def lower_py_def)

subsection \<open>Stripping\<close>

lemma strip_trailing:
  assumes "spaces ws" "s \<noteq> []" "\<not> is_space_py (hd s)" "\<not> is_space_py (last s)"
  shows "strip_py (s @ ws) = s"
proof -
  have 1: "dropWhile is_space_py (s @ ws) = s @ ws"
    using assms(2,3) by (cases s) simp_all
  have "spaces (rev ws)" using assms(1) by (simp add: spaces_def)
  moreover have "rev s = [] \<or> \<not> is_space_py (hd (rev s))"
    using assms(2,4) by (simp add: hd_rev)
  ultimately have "dropWhile is_space_py (rev ws @ rev s) = rev s" by (rule drop_spaces)
  then show ?thesis by (simp add: strip_py_def 1)
qed

lemma strip_tail:
  assumes "spaces ws" "unit_text u" "a \<noteq> []" "\<not> is_space_py (hd a)" "\<not> is_space_py (last a)"
  shows "strip_py (a @ ws @ u) = a @ unit_tail ws u"
proof (cases "u = []")
  case True
  then show ?thesis using strip_trailing [OF assms(1,3,4,5)] by (simp add: unit_tail_def)
next
  case False
  have "strip_py ((a @ ws @ u) @ []) = a @ ws @ u"
    using assms(3,4) False unit_ends [OF assms(2) False]
    by (intro strip_trailing) (simp_all add: spaces_def hd_append)
  then show ?thesis using False by (simp add: unit_tail_def)
qed

lemma strip_idem: "strip_py (strip_py s) = strip_py s"
proof -
  define a where "a = dropWhile is_space_py s"
  define b where "b = dropWhile is_space_py (rev a)"
  have b: "dropWhile is_space_py b = b" unfolding b_def by (rule dropWhile_idem)
  have "dropWhile is_space_py (rev b) = rev b"
  proof (cases "rev b")
    case Nil
    then show ?thesis by simp
  next
    case (Cons c cs)
    have "\<exists>ys. rev a = ys @ b" unfolding b_def
      by (metis takeWhile_dropWhile_id)
    then obtain ys where "a = rev b @ rev ys" by (metis rev_append rev_rev_ident)
    then have "hd a = c" using Cons by simp
    moreover have "a \<noteq> []" using \<open>a = rev b @ rev ys\<close> Cons by simp
    ultimately have "\<not> is_space_py c" unfolding a_def using hd_dropWhile by metis
    then show ?thesis using Cons by simp
  qed
  then show ?thesis
    using b by (simp add: strip_py_def a_def [symmetric] b_def [symmetric])
qed

subsection \<open>The patterns on texts of a known shape\<close>

lemma lit_plus_fails:
  assumes "number_literal n"
  shows "(case n @ rest of [] \<Rightarrow> None | d # r \<Rightarrow> if d = CHR ''+'' then f r else None) = None"
proof -
  obtain c cs where n: "n = c # cs" using number_literal_props(1) [OF assms] by (cases n) auto
  then have "is_digit c" using number_literal_props(2) [OF assms] by simp
  then have "c \<noteq> CHR ''+''" by (auto simp: is_digit_def)
  then show ?thesis by (simp add: n)
qed

lemma plus_class: "lower_char CHR ''+'' = CHR ''+''"
  by (simp add: char_eval)

lemma parse_plain:
  assumes "number_literal n" "spaces ws" "unit_text u"
  shows "first_match patterns (n @ unit_tail ws u) = Some (literal_value n * mm_per_unit u)"
proof -
  have a: "re_number (n @ unit_tail ws u) = Some (n, unit_tail ws u)"
    using assms(1) tail_stops [OF assms(2,3)] by (rule re_number_literal)
  show ?thesis
    by (simp del: re_unit_end.simps add: patterns_def re_match_def a tail_drop [OF assms(2,3)]
        unit_end_three [OF assms(3)] to_millimeters_unit [OF assms(3)])
qed

lemma parse_plus:
  assumes "number_literal n" "spaces ws" "unit_text u"
  shows "first_match patterns (CHR ''+'' # n @ unit_tail ws u) =
    Some (literal_value n * mm_per_unit u)"
proof -
  have a: "re_number (n @ unit_tail ws u) = Some (n, unit_tail ws u)"
    using assms(1) tail_stops [OF assms(2,3)] by (rule re_number_literal)
  show ?thesis
    by (simp del: re_unit_end.simps add: patterns_def re_match_def re_number_plus a tail_drop [OF assms(2,3)]
        unit_end_five [OF assms(3)] to_millimeters_unit [OF assms(3)])
qed

lemma parse_marker:
  assumes "number_literal n" "spaces ws" "marker mk" "spaces ws1" "unit_text u"
  shows "first_match patterns (n @ ws @ mk # unit_tail ws1 u) =
    Some (literal_value n * mm_per_unit u)"
proof -
  let ?tl = "unit_tail ws1 u"
  have a: "re_number (n @ ws @ mk # ?tl) = Some (n, ws @ mk # ?tl)"
    using assms(1) stops_number_spaces [OF assms(2) stops_number_marker [OF assms(3)]]
    by (rule re_number_literal)
  have b: "dropWhile is_space_py (ws @ mk # ?tl) = mk # ?tl"
    using assms(2) marker_props(1) [OF assms(3)] by (intro drop_spaces) simp_all
  have c: "re_unit_end [''mm'', ''cm'', ''m''] (mk # ?tl) = None"
    using assms(3) by (intro unit_end_three_fails) simp
  note rest = tail_drop [OF assms(4,5)] unit_end_three [OF assms(5)]
    to_millimeters_unit [OF assms(5)]
  from assms(3) consider "lower_char mk = CHR ''p''" | "lower_char mk = CHR ''v''"
    using marker_iff by blast
  then show ?thesis
  proof cases
    case 1
    then show ?thesis
      by (simp del: re_unit_end.simps add: patterns_def re_match_def a b c lit_plus_fails [OF assms(1)] rest)
  next
    case 2
    then show ?thesis
      by (simp del: re_unit_end.simps add: patterns_def re_match_def a b c lit_plus_fails [OF assms(1)] rest)
  qed
qed

lemma parse_plus_marker:
  assumes "number_literal n" "spaces ws" "marker mk" "spaces ws1" "unit_text u"
  shows "first_match patterns (CHR ''+'' # n @ ws @ mk # unit_tail ws1 u) =
    Some (literal_value n * mm_per_unit u)"
proof -
  let ?tl = "unit_tail ws1 u"
  have a: "re_number (n @ ws @ mk # ?tl) = Some (n, ws @ mk # ?tl)"
    using assms(1) stops_number_spaces [OF assms(2) stops_number_marker [OF assms(3)]]
    by (rule re_number_literal)
  have b: "dropWhile is_space_py (ws @ mk # ?tl) = mk # ?tl"
    using assms(2) marker_props(1) [OF assms(3)] by (intro drop_spaces) simp_all
  note c = unit_end_five_marker [OF assms(3,4,5)]
  have m: "lower_char mk \<in> set ''pv''" using assms(3) marker_iff by auto
  have tm: "to_millimeters (n, Some u) = literal_value n * mm_per_unit u" if "u \<noteq> []"
    using to_millimeters_unit [OF assms(5), of n] that by simp
  have f0: "mm_per_unit [] = 1"
    by (simp add: mm_per_unit_def lower_py_def)
  show ?thesis
    using m to_millimeters_marker [OF assms(3), of n]
    by (simp del: re_unit_end.simps add: patterns_def re_match_def re_number_plus a b c
        tail_drop [OF assms(4,5)] unit_end_three [OF assms(5)] tm f0)
qed

lemma parse_number_plus_marker:
  assumes "number_literal n" "spaces ws" "spaces ws1" "marker mk" "spaces ws2" "unit_text u"
  shows "first_match patterns (n @ ws @ CHR ''+'' # ws1 @ mk # unit_tail ws2 u) =
    Some (literal_value n * mm_per_unit u)"
proof -
  let ?tl = "unit_tail ws2 u"
  let ?r = "CHR ''+'' # ws1 @ mk # ?tl"
  have a: "re_number (n @ ws @ ?r) = Some (n, ws @ ?r)"
    using assms(1) stops_number_spaces [OF assms(2) stops_number_plus]
    by (rule re_number_literal)
  have b: "dropWhile is_space_py (ws @ ?r) = ?r"
    using assms(2) by (intro drop_spaces) (simp_all add: is_space_py_def)
  have c: "re_unit_end [''mm'', ''cm'', ''m''] ?r = None"
    by (intro unit_end_three_fails) simp
  have d: "dropWhile is_space_py (ws1 @ mk # ?tl) = mk # ?tl"
    using assms(3) marker_props(1) [OF assms(4)] by (intro drop_spaces) simp_all
  have m: "lower_char mk \<in> set ''pv''" using assms(4) marker_iff by auto
  show ?thesis
    using m
    by (simp del: re_unit_end.simps add: patterns_def re_match_def a b c d lit_plus_fails [OF assms(1)] plus_class
        tail_drop [OF assms(5,6)] unit_end_three [OF assms(6)]
        to_millimeters_unit [OF assms(6)])
qed

subsection \<open>The parser on texts of a known shape\<close>

lemma number_literal_ends:
  assumes "number_literal n"
  shows "\<not> is_space_py (hd n)" "\<not> is_space_py (last n)"
  using number_literal_props [OF assms] digit_not_space by auto

lemma extract_plain:
  assumes "number_literal n" "spaces ws" "unit_text u"
  shows "extract_dimension_value (n @ ws @ u) = Some (literal_value n * mm_per_unit u)"
proof -
  have "strip_py (n @ ws @ u) = n @ unit_tail ws u"
    using assms(2,3) number_literal_props(1) [OF assms(1)] number_literal_ends [OF assms(1)]
    by (rule strip_tail)
  then show ?thesis by (simp add: extract_dimension_value_def parse_plain [OF assms])
qed

lemma extract_plus:
  assumes "number_literal n" "spaces ws" "unit_text u"
  shows "extract_dimension_value (CHR ''+'' # n @ ws @ u) = Some (literal_value n * mm_per_unit u)"
proof -
  have "strip_py ((CHR ''+'' # n) @ ws @ u) = (CHR ''+'' # n) @ unit_tail ws u"
    using assms(2,3) number_literal_props(1) [OF assms(1)] number_literal_ends(2) [OF assms(1)]
    by (intro strip_tail) (simp_all add: is_space_py_def)
  then show ?thesis by (simp add: extract_dimension_value_def parse_plus [OF assms])
qed

lemma extract_marker:
  assumes "number_literal n" "spaces ws" "marker mk" "spaces ws1" "unit_text u"
  shows "extract_dimension_value (n @ ws @ mk # ws1 @ u) = Some (literal_value n * mm_per_unit u)"
proof -
  have "strip_py ((n @ ws @ [mk]) @ ws1 @ u) = (n @ ws @ [mk]) @ unit_tail ws1 u"
    using assms(4,5) number_literal_props(1) [OF assms(1)] number_literal_ends(1) [OF assms(1)]
      marker_props(1) [OF assms(3)]
    by (intro strip_tail) (simp_all add: hd_append)
  then show ?thesis by (simp add: extract_dimension_value_def parse_marker [OF assms])
qed

lemma extract_plus_marker:
  assumes "number_literal n" "spaces ws" "marker mk" "spaces ws1" "unit_text u"
  shows "extract_dimension_value (CHR ''+'' # n @ ws @ mk # ws1 @ u) =
    Some (literal_value n * mm_per_unit u)"
proof -
  have "strip_py ((CHR ''+'' # n @ ws @ [mk]) @ ws1 @ u) =
      (CHR ''+'' # n @ ws @ [mk]) @ unit_tail ws1 u"
    using assms(4,5) marker_props(1) [OF assms(3)]
    by (intro strip_tail) (simp_all add: is_space_py_def)
  then show ?thesis by (simp add: extract_dimension_value_def parse_plus_marker [OF assms])
qed

lemma extract_number_plus_marker:
  assumes "number_literal n" "spaces ws" "spaces ws1" "marker mk" "spaces ws2" "unit_text u"
  shows "extract_dimension_value (n @ ws @ CHR ''+'' # ws1 @ mk # ws2 @ u) =
    Some (literal_value n * mm_per_unit u)"
proof -
  have "strip_py ((n @ ws @ CHR ''+'' # ws1 @ [mk]) @ ws2 @ u) =
      (n @ ws @ CHR ''+'' # ws1 @ [mk]) @ unit_tail ws2 u"
    using assms(5,6) number_literal_props(1) [OF assms(1)] number_literal_ends(1) [OF assms(1)]
      marker_props(1) [OF assms(4)]
    by (intro strip_tail) (simp_all add: hd_append)
  then show ?thesis
    by (simp add: extract_dimension_value_def parse_number_plus_marker [OF assms])
qed

subsection \<open>The value of a literal\<close>

lemma replace_comma_digits: "digits ds \<Longrightarrow> replace_comma ds = ds"
proof -
  assume "digits ds"
  then have all: "\<forall>c\<in>set ds. is_digit c" by (rule digits_props(4))
  have "\<not> is_digit CHR '',''" by (simp add: is_digit_def)
  with all have "\<forall>c\<in>set ds. c \<noteq> CHR '',''" by blast
  then show ?thesis unfolding replace_comma_def by (intro map_idI) simp
qed

lemma literal_value_int:
  assumes "digits ip"
  shows "literal_value ip = of_nat (nat_of_digits ip)"
proof -
  have "takeWhile is_digit (ip @ []) = ip" "dropWhile is_digit (ip @ []) = []"
    using assms by (intro takeWhile_digits; simp)+
  then have t: "takeWhile is_digit ip = ip" and d: "dropWhile is_digit ip = []"
    by simp_all
  have z: "nat_of_digits [] = 0" by (simp add: nat_of_digits_def)
  show ?thesis
    unfolding literal_value_def float_py_def replace_comma_digits [OF assms] Let_def t d
    by (simp add: z)
qed

lemma literal_value_frac:
  assumes "digits ip" "digits fp" "sep = CHR '','' \<or> sep = CHR ''.''"
  shows "literal_value (ip @ sep # fp) =
    of_nat (nat_of_digits ip) + of_nat (nat_of_digits fp) / 10 ^ length fp"
proof -
  have r: "replace_comma (ip @ sep # fp) = ip @ CHR ''.'' # fp"
    using replace_comma_digits [OF assms(1)] replace_comma_digits [OF assms(2)] assms(3)
    by (auto simp add: replace_comma_def)
  have t: "takeWhile is_digit (ip @ CHR ''.'' # fp) = ip"
    and d: "dropWhile is_digit (ip @ CHR ''.'' # fp) = CHR ''.'' # fp"
    using assms(1) by (intro takeWhile_digits; simp add: is_digit_def)+
  show ?thesis
    unfolding literal_value_def float_py_def r Let_def t d by simp
qed

lemmas parser_eval =
  extract_dimension_value_def patterns_def strip_py_def re_match_def re_number_def
  re_digits_def to_millimeters_def float_py_def replace_comma_def nat_of_digits_def
  digit_val_def at_end_def char_eval

lemma first_match_empty: "first_match patterns [] = None"
  by (simp add: patterns_def re_match_def re_number_def re_digits_def)

lemma extract_strip: "extract_dimension_value (strip_py t) = extract_dimension_value t"
  by (simp add: extract_dimension_value_def strip_idem)

lemma extract_blank: "strip_py t = [] \<Longrightarrow> extract_dimension_value t = None"
  by (simp add: extract_dimension_value_def first_match_empty)

subsection \<open>A region of the wrong arity\<close>

lemma unpack4_wrong_arity: "length xs \<noteq> 4 \<Longrightarrow> unpack4 xs = Inl ValueError"
  by (auto simp add: unpack4_def split: list.splits)

lemma region_lines_wrong_arity:
  assumes "length (coordinate_block r) \<noteq> 4" "ls \<noteq> []"
  shows "region_lines dt r ls = Inl ValueError"
proof -
  obtain l rest where ls: "ls = l # rest" using assms(2) by (cases ls) auto
  show ?thesis
    by (simp add: ls line_intersects_region_def unpack4_wrong_arity [OF assms(1)] bind_res_simps)
qed

lemma region_texts_wrong_arity:
  assumes "length (coordinate_block r) \<noteq> 4" "ts \<noteq> []"
  shows "region_texts dt r ts = Inl ValueError"
proof -
  obtain t rest where ts: "ts = t # rest" using assms(2) by (cases ts) auto
  show ?thesis
    by (simp add: ts text_overlaps_region_def unpack4_wrong_arity [OF assms(1)] bind_res_simps)
qed

lemma process_region_wrong_arity:
  assumes "length (coordinate_block r) \<noteq> 4" "ls \<noteq> [] \<or> ts \<noteq> []"
  shows "\<exists>e. process_region dt ls ts r = Inl e"
proof (cases "ls = []")
  case True
  then have "ts \<noteq> []" using assms(2) by simp
  then show ?thesis
    using True region_texts_wrong_arity [OF assms(1)]
    by (simp add: process_region_def bind_res_simps)
next
  case False
  then show ?thesis
    using region_lines_wrong_arity [OF assms(1)]
    by (simp add: process_region_def bind_res_simps)
qed

lemma process_regions_fail:
  assumes "r \<in> set rs" "\<exists>e. f r = Inl e"
  shows "\<exists>e. process_regions f rs = Inl e"
  using assms(1)
proof (induction rs)
  case Nil
  then show ?case by simp
next
  case (Cons q rs)
  show ?case
  proof (cases "f q")
    case (Inl e)
    then show ?thesis by (simp add: bind_res_simps)
  next
    case (Inr rd)
    then have "q \<noteq> r" using assms(2) by auto
    then have "r \<in> set rs" using Cons.prems by simp
    then obtain e where "process_regions f rs = Inl e" using Cons.IH by blast
    then show ?thesis by (simp add: Inr bind_res_simps)
  qed
qed

lemma remove_duplicate_lines_nonempty:
  assumes "remove_duplicate_lines ls = Inr u" "ls \<noteq> []"
  shows "u \<noteq> []"
proof -
  obtain l rest where ls: "ls = l # rest" using assms(2) by (cases ls) auto
  then have "dedupe_loop [l] rest = Inr u"
    using assms(1) by (simp add: remove_duplicate_lines_def bind_res_simps)
  then obtain v where "u = [l] @ v" using dedupe_loop_subseq by blast
  then show ?thesis by simp
qed

lemma filter_body_steps:
  assumes "pages (vector_data inp) = page # others"
    and "drawing_type (vision_output inp) \<noteq> ''installatietekening''"
  shows "filter_body inp =
    bind_res (remove_duplicate_lines
                (step1_lines (drawing_type (vision_output inp)) (lines page))) (\<lambda>uniq.
    bind_res (process_regions
                (process_region (drawing_type (vision_output inp)) uniq (texts page))
                (regions (vision_output inp))) (\<lambda>ros.
      Inr \<lparr>out_drawing_type = drawing_type (vision_output inp), out_regions = ros\<rparr>))"
  using assms
  by (auto simp add: filter_body_def Let_def remove_duplicate_lines_def bind_res_simps)

lemma filter_clean_wrong_arity:
  assumes "pages (vector_data inp) = page # others"
    and "drawing_type (vision_output inp) \<noteq> ''installatietekening''"
    and "r \<in> set (regions (vision_output inp))"
    and "length (coordinate_block r) \<noteq> 4"
    and "step1_lines (drawing_type (vision_output inp)) (lines page) \<noteq> [] \<or> texts page \<noteq> []"
  shows "filter_clean inp = Inl (HTTPException 500)"
proof -
  let ?dt = "drawing_type (vision_output inp)"
  let ?s1 = "step1_lines ?dt (lines page)"
  note body = filter_body_steps [OF assms(1,2)]
  have "\<exists>e. filter_body inp = Inl e"
  proof (cases "remove_duplicate_lines ?s1")
    case (Inl e)
    then show ?thesis by (simp add: body bind_res_simps)
  next
    case (Inr uniq)
    have "uniq \<noteq> [] \<or> texts page \<noteq> []"
      using assms(5) remove_duplicate_lines_nonempty [OF Inr] by blast
    then have "\<exists>e. process_region ?dt uniq (texts page) r = Inl e"
      using process_region_wrong_arity [OF assms(4)] by blast
    then obtain e where
      "process_regions (process_region ?dt uniq (texts page)) (regions (vision_output inp)) = Inl e"
      using process_regions_fail [OF assms(3)] by blast
    then show ?thesis by (simp add: body Inr bind_res_simps)
  qed
  then show ?thesis by (auto simp add: filter_clean_def)
qed

subsection \<open>Deduplicated lists\<close>

lemma no_duplicates_Nil: "no_duplicates []"
  by (simp add: no_duplicates_def)

lemma no_duplicates_snoc:
  "no_duplicates (u @ [l]) \<longleftrightarrow> no_duplicates u \<and> is_duplicate l u = Inr False"
proof
  assume a: "no_duplicates (u @ [l])"
  have "is_duplicate ((u @ [l]) ! i) (take i (u @ [l])) = Inr False" if "i < length u" for i
    using a that by (simp add: no_duplicates_def)
  then have 1: "no_duplicates u"
    by (simp add: no_duplicates_def nth_append)
  have "is_duplicate ((u @ [l]) ! length u) (take (length u) (u @ [l])) = Inr False"
    using a [unfolded no_duplicates_def, THEN spec, of "length u"] by simp
  then have 2: "is_duplicate l u = Inr False" by simp
  from 1 2 show "no_duplicates u \<and> is_duplicate l u = Inr False" by simp
next
  assume a: "no_duplicates u \<and> is_duplicate l u = Inr False"
  show "no_duplicates (u @ [l])"
    unfolding no_duplicates_def
  proof (intro allI impI)
    fix i assume "i < length (u @ [l])"
    then consider "i < length u" | "i = length u" by fastforce
    then show "is_duplicate ((u @ [l]) ! i) (take i (u @ [l])) = Inr False"
    proof cases
      case 1
      then show ?thesis using a by (simp add: no_duplicates_def nth_append)
    next
      case 2
      then show ?thesis using a by simp
    qed
  qed
qed

lemma dedupe_loop_no_duplicates:
  "dedupe_loop acc ls = Inr u \<Longrightarrow> no_duplicates acc \<Longrightarrow> no_duplicates u"
proof (induction ls arbitrary: acc)
  case Nil
  then show ?case by simp
next
  case (Cons l ls)
  from Cons.prems(1) obtain d where d: "is_duplicate l acc = Inr d"
    and rest: "dedupe_loop (if d then acc else acc @ [l]) ls = Inr u"
    by (auto simp add: bind_res_def split: sum.splits)
  have "no_duplicates (if d then acc else acc @ [l])"
    using Cons.prems(2) d by (simp add: no_duplicates_snoc)
  with rest show ?case by (rule Cons.IH)
qed

lemma dedupe_loop_fixed:
  "no_duplicates (acc @ rest) \<Longrightarrow> dedupe_loop acc rest = Inr (acc @ rest)"
proof (induction rest arbitrary: acc)
  case Nil
  then show ?case by simp
next
  case (Cons l ls)
  have "is_duplicate ((acc @ l # ls) ! length acc) (take (length acc) (acc @ l # ls)) = Inr False"
    using Cons.prems [unfolded no_duplicates_def, THEN spec, of "length acc"] by simp
  then have d: "is_duplicate l acc = Inr False" by simp
  have "no_duplicates ((acc @ [l]) @ ls)" using Cons.prems by simp
  then have "dedupe_loop (acc @ [l]) ls = Inr ((acc @ [l]) @ ls)" by (rule Cons.IH)
  then show ?case by (simp add: d bind_res_simps)
qed

lemma dedupe_idempotent:
  "bind_res (remove_duplicate_lines ls) remove_duplicate_lines = remove_duplicate_lines ls"
proof (cases "remove_duplicate_lines ls")
  case (Inl e)
  then show ?thesis by (simp add: bind_res_simps)
next
  case (Inr u)
  then have "no_duplicates u"
    using dedupe_loop_no_duplicates [of "[]" ls u] no_duplicates_Nil
    by (simp add: remove_duplicate_lines_def)
  then have "dedupe_loop [] u = Inr u" using dedupe_loop_fixed [of "[]" u] by simp
  then have "remove_duplicate_lines u = Inr u" by (simp add: remove_duplicate_lines_def)
  then show ?thesis unfolding Inr by (simp add: bind_res_simps)
qed

lemma dedupe_loop_snoc:
  "dedupe_loop acc (ls @ [l]) =
     bind_res (dedupe_loop acc ls) (\<lambda>u.
     bind_res (is_duplicate l u) (\<lambda>d. Inr (if d then u else u @ [l])))"
proof (induction ls arbitrary: acc)
  case Nil
  show ?case
    by (cases "is_duplicate l acc") (simp_all add: bind_res_simps)
next
  case (Cons k ls)
  show ?case
    by (cases "is_duplicate k acc") (simp_all add: bind_res_simps Cons.IH)
qed

lemma dedupe_keeps_first:
  assumes "remove_duplicate_lines (l # rest) = Inr u"
  shows "\<exists>v. u = l # v"
proof -
  have "dedupe_loop [l] rest = Inr u"
    using assms by (simp add: remove_duplicate_lines_def bind_res_simps)
  then obtain v where "u = [l] @ v" using dedupe_loop_subseq by blast
  then show ?thesis by simp
qed

lemma is_duplicate_iff:
  assumes "wf_line l" "\<forall>e\<in>set es. wf_line e"
  shows "is_duplicate l es = Inr (\<exists>e\<in>set es. same_segment l e = Inr True)"
  using assms(2)
proof (induction es)
  case Nil
  then show ?case by simp
next
  case (Cons e es)
  then have ih: "is_duplicate l es = Inr (\<exists>e\<in>set es. same_segment l e = Inr True)" by simp
  have "wf_line e" using Cons.prems by simp
  then obtain s where s: "same_segment l e = Inr s"
    using same_segment_total [OF assms(1)] by blast
  show ?case by (cases s) (simp_all add: s ih bind_res_simps)
qed

lemma same_segment_points:
  assumes "p1 a = [x1, y1]" "p2 a = [x2, y2]" "p1 b = [u1, v1]" "p2 b = [u2, v2]"
  shows "same_segment b a =
    Inr ((\<bar>u1 - x1\<bar> < 1 \<and> \<bar>v1 - y1\<bar> < 1 \<and> \<bar>u2 - x2\<bar> < 1 \<and> \<bar>v2 - y2\<bar> < 1) \<or>
         (\<bar>u1 - x2\<bar> < 1 \<and> \<bar>v1 - y2\<bar> < 1 \<and> \<bar>u2 - x1\<bar> < 1 \<and> \<bar>v2 - y1\<bar> < 1))"
  by (auto simp add: same_segment_def point_match_def coord_close_def index_py_def tolerance_def
      assms bind_res_simps)

lemma dedupe_pair:
  assumes "p1 a = [x1, y1]" "p2 a = [x2, y2]" "p1 b = [u1, v1]" "p2 b = [u2, v2]"
  shows "remove_duplicate_lines [a, b] =
    Inr (if (\<bar>u1 - x1\<bar> < 1 \<and> \<bar>v1 - y1\<bar> < 1 \<and> \<bar>u2 - x2\<bar> < 1 \<and> \<bar>v2 - y2\<bar> < 1) \<or>
            (\<bar>u1 - x2\<bar> < 1 \<and> \<bar>v1 - y2\<bar> < 1 \<and> \<bar>u2 - x1\<bar> < 1 \<and> \<bar>v2 - y1\<bar> < 1)
         then [a] else [a, b])"
  by (simp add: remove_duplicate_lines_def same_segment_points [OF assms] bind_res_simps)

subsection \<open>A segment against a rectangle\<close>

lemma clip_axis_iff:
  assumes "lo \<le> hi"
  shows "(0 \<le> t \<and> t \<le> 1 \<and> lo \<le> a + t * d \<and> a + t * d \<le> hi) \<longleftrightarrow>
    (\<exists>l h. clip_axis a d lo hi = Some (l, h) \<and> l \<le> t \<and> t \<le> h)"
proof -
  define t1 where "t1 = (lo - a) / d"
  define t2 where "t2 = (hi - a) / d"
  consider "d = 0" | "d > 0" | "d < 0" by linarith
  then show ?thesis
  proof cases
    case 1
    then show ?thesis by (auto simp add: clip_axis_def)
  next
    case 2
    have c: "clip_axis a d lo hi = Some (max 0 (min t1 t2), min 1 (max t1 t2))"
      using 2 by (simp add: clip_axis_def Let_def t1_def t2_def)
    have le: "t1 \<le> t2"
      unfolding t1_def t2_def using assms 2 by (simp add: divide_right_mono)
    have a1: "lo \<le> a + t * d \<longleftrightarrow> t1 \<le> t"
      unfolding t1_def using 2 by (simp add: pos_divide_le_eq algebra_simps)
    have a2: "a + t * d \<le> hi \<longleftrightarrow> t \<le> t2"
      unfolding t2_def using 2 by (simp add: pos_le_divide_eq algebra_simps)
    show ?thesis
      unfolding c a1 a2 using le by auto
  next
    case 3
    have c: "clip_axis a d lo hi = Some (max 0 (min t1 t2), min 1 (max t1 t2))"
      using 3 by (simp add: clip_axis_def Let_def t1_def t2_def)
    have le: "t2 \<le> t1"
      unfolding t1_def t2_def using assms 3 by (simp add: divide_right_mono_neg)
    have a1: "lo \<le> a + t * d \<longleftrightarrow> t \<le> t1"
      unfolding t1_def using 3 by (simp add: neg_le_divide_eq algebra_simps)
    have a2: "a + t * d \<le> hi \<longleftrightarrow> t2 \<le> t"
      unfolding t2_def using 3 by (simp add: neg_divide_le_eq algebra_simps)
    show ?thesis
      unfolding c a1 a2 using le by auto
  qed
qed

lemma linestring_intersects_box_iff:
  assumes "minx \<le> maxx" "miny \<le> maxy"
  shows "linestring_intersects_box (ax, ay) (bx, by) (minx, miny, maxx, maxy) =
    segment_meets_box (ax, ay) (bx, by) (minx, miny, maxx, maxy)"
proof -
  let ?cx = "clip_axis ax (bx - ax) minx maxx"
  let ?cy = "clip_axis ay (by - ay) miny maxy"
  have mm: "min minx maxx = minx" "max minx maxx = maxx" "min miny maxy = miny"
    "max miny maxy = maxy"
    using assms by simp_all
  have X: "(0 \<le> t \<and> t \<le> 1 \<and> minx \<le> ax + t * (bx - ax) \<and> ax + t * (bx - ax) \<le> maxx) \<longleftrightarrow>
      (\<exists>l h. ?cx = Some (l, h) \<and> l \<le> t \<and> t \<le> h)" for t
    using assms(1) by (rule clip_axis_iff)
  have Y: "(0 \<le> t \<and> t \<le> 1 \<and> miny \<le> ay + t * (by - ay) \<and> ay + t * (by - ay) \<le> maxy) \<longleftrightarrow>
      (\<exists>l h. ?cy = Some (l, h) \<and> l \<le> t \<and> t \<le> h)" for t
    using assms(2) by (rule clip_axis_iff)
  have S: "segment_meets_box (ax, ay) (bx, by) (minx, miny, maxx, maxy) \<longleftrightarrow>
      (\<exists>t. (\<exists>l h. ?cx = Some (l, h) \<and> l \<le> t \<and> t \<le> h) \<and>
           (\<exists>l h. ?cy = Some (l, h) \<and> l \<le> t \<and> t \<le> h))"
    unfolding X [symmetric] Y [symmetric] segment_meets_box_def by auto
  show ?thesis
  proof (cases ?cx)
    case None
    then show ?thesis unfolding S by (simp add: mm)
  next
    case sx: (Some px)
    obtain l1 h1 where px: "px = (l1, h1)" by (cases px)
    show ?thesis
    proof (cases ?cy)
      case None
      then show ?thesis unfolding S by (simp add: mm sx px)
    next
      case sy: (Some py)
      obtain l2 h2 where py: "py = (l2, h2)" by (cases py)
      have "(\<exists>t. l1 \<le> t \<and> t \<le> h1 \<and> l2 \<le> t \<and> t \<le> h2) \<longleftrightarrow> max l1 l2 \<le> min h1 h2"
      proof
        assume "\<exists>t. l1 \<le> t \<and> t \<le> h1 \<and> l2 \<le> t \<and> t \<le> h2"
        then show "max l1 l2 \<le> min h1 h2" by auto
      next
        assume "max l1 l2 \<le> min h1 h2"
        then have "l1 \<le> max l1 l2 \<and> max l1 l2 \<le> h1 \<and> l2 \<le> max l1 l2 \<and> max l1 l2 \<le> h2"
          by auto
        then show "\<exists>t. l1 \<le> t \<and> t \<le> h1 \<and> l2 \<le> t \<and> t \<le> h2" by blast
      qed
      then show ?thesis unfolding S by (simp add: mm sx px sy py)
    qed
  qed
qed

lemma convex_between:
  fixes a b t :: real
  assumes "0 \<le> t" "t \<le> 1"
  shows "min a b \<le> a + t * (b - a)" "a + t * (b - a) \<le> max a b"
proof -
  have e: "a + t * (b - a) = (1 - t) * a + t * b" by (simp add: algebra_simps)
  have "(1 - t) * min a b \<le> (1 - t) * a" "t * min a b \<le> t * b"
    using assms by (simp_all add: mult_left_mono)
  then have "(1 - t) * min a b + t * min a b \<le> (1 - t) * a + t * b" by linarith
  then show "min a b \<le> a + t * (b - a)" unfolding e by (simp add: algebra_simps)
  have "(1 - t) * a \<le> (1 - t) * max a b" "t * b \<le> t * max a b"
    using assms by (simp_all add: mult_left_mono)
  then have "(1 - t) * a + t * b \<le> (1 - t) * max a b + t * max a b" by linarith
  then show "a + t * (b - a) \<le> max a b" unfolding e by (simp add: algebra_simps)
qed

lemma bbox_apart_no_meet:
  assumes "max ax bx < e0 \<or> min ax bx > e2 \<or> max ay by < e1 \<or> min ay by > e3"
  shows "\<not> segment_meets_box (ax, ay) (bx, by) (e0, e1, e2, e3)"
proof
  assume "segment_meets_box (ax, ay) (bx, by) (e0, e1, e2, e3)"
  then obtain t where t: "0 \<le> t" "t \<le> 1"
    "e0 \<le> ax + t * (bx - ax)" "ax + t * (bx - ax) \<le> e2"
    "e1 \<le> ay + t * (by - ay)" "ay + t * (by - ay) \<le> e3"
    by (auto simp add: segment_meets_box_def)
  from convex_between [OF t(1,2), of ax bx] convex_between [OF t(1,2), of ay "by"] t(3-6) assms
  show False by linarith
qed

lemma endpoint_meets:
  assumes "in_box bx pa \<or> in_box bx pb"
  shows "segment_meets_box pa pb bx"
proof -
  from assms show ?thesis
  proof
    assume "in_box bx pa"
    then show ?thesis
      unfolding segment_meets_box_def
      by (intro exI [of _ 0]) (auto simp add: in_box_def split: prod.splits)
  next
    assume "in_box bx pb"
    then show ?thesis
      unfolding segment_meets_box_def
      by (intro exI [of _ 1]) (auto simp add: in_box_def split: prod.splits)
  qed
qed

lemma line_intersects_region_meets:
  assumes "x1 \<le> x2 + 50" "y1 \<le> y2 + 50"
  shows "line_intersects_region [ax, ay] [bx, by] [x1, y1, x2, y2] =
    Inr (segment_meets_box (ax, ay) (bx, by) (x1 - 25, y1 - 25, x2 + 25, y2 + 25))"
proof -
  let ?e = "(x1 - 25, y1 - 25, x2 + 25, y2 + 25)"
  have ord: "x1 - 25 \<le> x2 + 25" "y1 - 25 \<le> y2 + 25" using assms by simp_all
  consider (a) "in_box ?e (ax, ay)"
    | (b) "\<not> in_box ?e (ax, ay)" "in_box ?e (bx, by)"
    | (c) "\<not> in_box ?e (ax, ay)" "\<not> in_box ?e (bx, by)"
        "max ax bx < x1 - 25 \<or> min ax bx > x2 + 25 \<or> max ay by < y1 - 25 \<or> min ay by > y2 + 25"
    | (d) "\<not> in_box ?e (ax, ay)" "\<not> in_box ?e (bx, by)"
        "\<not> (max ax bx < x1 - 25 \<or> min ax bx > x2 + 25 \<or> max ay by < y1 - 25 \<or> min ay by > y2 + 25)"
    by blast
  then show ?thesis
  proof cases
    case a
    then have "segment_meets_box (ax, ay) (bx, by) ?e" using endpoint_meets by blast
    then show ?thesis
      using a by (simp add: line_intersects_region_def expand_region_def bind_res_simps)
  next
    case b
    then have "segment_meets_box (ax, ay) (bx, by) ?e" using endpoint_meets by blast
    then show ?thesis
      using b by (simp add: line_intersects_region_def expand_region_def bind_res_simps)
  next
    case c
    then have "\<not> segment_meets_box (ax, ay) (bx, by) ?e" using bbox_apart_no_meet by blast
    then show ?thesis
      using c by (simp add: line_intersects_region_def expand_region_def bind_res_simps Let_def)
  next
    case d
    have "linestring_intersects_box (ax, ay) (bx, by) ?e = segment_meets_box (ax, ay) (bx, by) ?e"
      using ord by (rule linestring_intersects_box_iff)
    then show ?thesis
      using d
      by (auto simp add: line_intersects_region_def expand_region_def bind_res_simps Let_def
          simp del: linestring_intersects_box.simps)
  qed
qed

subsection \<open>Substrings and positions\<close>














section \<open>The claims\<close>

text \<open>
  Claim C9. The orientation of a segment does not depend on the order of its endpoints:
  for all coordinate lists and every optional angle, \<open>calculate_orientation\<close> gives the
  same result (the same category, or the same exception when a list is too short) for
  \<open>(p1, p2)\<close> and for \<open>(p2, p1)\<close>.
\<close>

theorem orientation_undirected:
  "calculate_orientation pt1 pt2 ang = calculate_orientation pt2 pt1 ang"
proof (cases ang)
  case (Some a)
  then show ?thesis by (simp add: calculate_orientation_def)
next
  case None
  have swap: "\<bar>u - v\<bar> = \<bar>v - u\<bar>" for u v :: real by (rule abs_minus_commute)
  show ?thesis
  proof (cases "2 \<le> length pt1 \<and> 2 \<le> length pt2")
    case True
    then show ?thesis
      using None
      by (simp add: calculate_orientation_def index_py_def bind_res_simps Let_def
          swap [of "pt2 ! 0" "pt1 ! 0"] swap [of "pt2 ! Suc 0" "pt1 ! Suc 0"])
  next
    case False
    then show ?thesis
      using None
      by (auto simp add: calculate_orientation_def index_py_def bind_res_simps)
  qed
qed


text \<open>
  Claim C2. When the drawing type is \<open>installatietekening\<close>, the pipeline returns the
  output with that drawing type and an empty list of regions, whatever the lines and
  texts of the page and whatever the regions (coordinate lists of a wrong arity
  included). The claim speaks of the page of the input: the input has at least one
  page.
\<close>

theorem installatietekening_short_circuit:
  assumes "pages (vector_data inp) \<noteq> []"
    and "drawing_type (vision_output inp) = ''installatietekening''"
  shows "filter_clean inp = Inr \<lparr>out_drawing_type = ''installatietekening'', out_regions = []\<rparr>"
  using assms by (auto simp add: filter_clean_def filter_body_def split: list.splits)

theorem installatietekening_short_circuit_witness:
  "filter_clean
     \<lparr>vector_data = \<lparr>page_number = 1, pages =
        [\<lparr>page_size = [], lines =
           [\<lparr>p1 = [0], p2 = [100, 0], stroke_width = 1, line_length = 100, color = [0, 0, 0],
             is_dashed = False, angle = None\<rparr>],
          texts = [\<lparr>text_content = ''2400mm'', position = [], font_size = None,
                    bounding_box = [0, 0, 50, 20]\<rparr>]\<rparr>]\<rparr>,
      vision_output = \<lparr>drawing_type = ''installatietekening'',
        regions = [\<lparr>label = ''A'', coordinate_block = [0, 0, 200]\<rparr>]\<rparr>\<rparr>
   = Inr \<lparr>out_drawing_type = ''installatietekening'', out_regions = []\<rparr>"
  by (rule installatietekening_short_circuit) simp_all

text \<open>
  Claim C5, as the code has it. For the page with the single line from \<open>(0, 0)\<close> to
  \<open>(100, 0)\<close> (stroke width 1, length 100, not dashed, no angle), the drawing type
  \<open>plattegrond\<close> and one region with the rectangle \<open>(0, 0)-(200, 50)\<close>, the output of
  the region holds exactly that line, with length 100 and midpoint \<open>(50, 0)\<close>; its
  orientation is \<open>vertical\<close>: a segment whose height is below 1 is named vertical by
  \<open>calculate_orientation\<close>, and one whose width is below 1 horizontal.
\<close>

theorem end_to_end_plattegrond_line:
  "filter_clean
     \<lparr>vector_data = \<lparr>page_number = n, pages =
        [\<lparr>page_size = ps, lines =
           [\<lparr>p1 = [0, 0], p2 = [100, 0], stroke_width = 1.0, line_length = 100, color = col,
             is_dashed = False, angle = None\<rparr>],
          texts = []\<rparr>]\<rparr>,
      vision_output = \<lparr>drawing_type = ''plattegrond'',
        regions = [\<lparr>label = lbl, coordinate_block = [0, 0, 200, 50]\<rparr>]\<rparr>\<rparr>
   = Inr \<lparr>out_drawing_type = ''plattegrond'', out_regions =
       [\<lparr>rd_label = lbl,
         rd_lines = [\<lparr>fl_length = 100, orientation = ''vertical'',
                      midpoint = \<lparr>cp_x = 50, cp_y = 0\<rparr>\<rparr>],
         rd_texts = [], parsed_drawing_type = None\<rparr>]\<rparr>"
  by (simp add: filter_clean_def filter_body_def step1_lines_def remove_duplicate_lines_def
      process_region_def to_filtered_line_def line_intersects_region_def expand_region_def
      in_box_def calculate_orientation_def calculate_midpoint_def index_py_def
      bind_res_simps should_include_line_def line_rule_def)

text \<open>
  The claim as stated fails: at this input the orientation the code computes is not
  \<open>horizontal\<close>.
\<close>

theorem end_to_end_orientation_counterexample:
  "filter_clean
     \<lparr>vector_data = \<lparr>page_number = 1, pages =
        [\<lparr>page_size = [], lines =
           [\<lparr>p1 = [0, 0], p2 = [100, 0], stroke_width = 1.0, line_length = 100,
             color = [0, 0, 0], is_dashed = False, angle = None\<rparr>],
          texts = []\<rparr>]\<rparr>,
      vision_output = \<lparr>drawing_type = ''plattegrond'',
        regions = [\<lparr>label = ''A'', coordinate_block = [0, 0, 200, 50]\<rparr>]\<rparr>\<rparr>
   \<noteq> Inr \<lparr>out_drawing_type = ''plattegrond'', out_regions =
       [\<lparr>rd_label = ''A'',
         rd_lines = [\<lparr>fl_length = 100, orientation = ''horizontal'',
                      midpoint = \<lparr>cp_x = 50, cp_y = 0\<rparr>\<rparr>],
         rd_texts = [], parsed_drawing_type = None\<rparr>]\<rparr>"
  by (simp add: filter_clean_def filter_body_def step1_lines_def remove_duplicate_lines_def
      process_region_def to_filtered_line_def line_intersects_region_def expand_region_def
      in_box_def calculate_orientation_def calculate_midpoint_def index_py_def
      bind_res_simps should_include_line_def line_rule_def)


lemma should_include_line_bestek:
  "should_include_line l ''bestektekening'' lbl =
     ((stroke_width l \<le> fst (spec_thresholds (parse_bestektekening_region_type lbl)) \<and>
       line_length l \<ge> snd (spec_thresholds (parse_bestektekening_region_type lbl))) \<or>
      is_dashed l)"
  by (simp add: should_include_line_def spec_thresholds_def line_rule_def Let_def)

lemmas example_eval =
  example_input_def example_line_def filter_clean_def filter_body_def step1_lines_def
  remove_duplicate_lines_def process_region_def to_filtered_line_def
  line_intersects_region_def expand_region_def in_box_def calculate_orientation_def
  calculate_midpoint_def index_py_def unpack2_def unpack4_def bind_res_simps
  should_include_line_def line_rule_def

text \<open>
  Claim C1. Take an input with a page whose line endpoints are pairs, whose text
  bounding boxes have four numbers, and whose regions have four coordinates (otherwise
  the pipeline raises, see claim C10).

  On a \<open>bestektekening\<close> page the survivors of step 1 are exactly the lines with
  (stroke width \<open>\<le> 1.5\<close> and length \<open>\<ge> 20\<close>) or dashed; they are deduplicated once, and
  the lines of a region's output are, in order, the projections of exactly those
  deduplicated survivors for which the membership test of the region holds and which
  pass the stroke and length thresholds of the sub-type resolved from the region's
  label (the table \<open>spec_thresholds\<close>), or are dashed.

  On a page of any other type but \<open>installatietekening\<close>, the lines of a region's output
  are the projections of exactly the deduplicated survivors of step 1 for which the
  membership test holds: step 3 applies no threshold.
\<close>

theorem region_line_inclusion:
  assumes "pages (vector_data inp) = page # others"
    and "\<forall>l\<in>set (lines page). wf_line l"
    and "\<forall>t\<in>set (texts page). wf_text t"
    and "\<forall>r\<in>set (regions (vision_output inp)). wf_region r"
  shows
    "(drawing_type (vision_output inp) = ''bestektekening'' \<longrightarrow>
       (\<exists>uniq out.
          remove_duplicate_lines
            (filter (\<lambda>l. (stroke_width l \<le> 1.5 \<and> line_length l \<ge> 20) \<or> is_dashed l) (lines page))
            = Inr uniq \<and>
          filter_clean inp = Inr out \<and>
          map (\<lambda>rd. map Inr (rd_lines rd)) (out_regions out) =
          map (\<lambda>r. map to_filtered_line
                 (filter (\<lambda>l. hits l r \<and>
                    ((stroke_width l \<le> fst (spec_thresholds (parse_bestektekening_region_type (label r))) \<and>
                      line_length l \<ge> snd (spec_thresholds (parse_bestektekening_region_type (label r))))
                     \<or> is_dashed l)) uniq))
            (regions (vision_output inp))))
     \<and>
     (drawing_type (vision_output inp) \<noteq> ''bestektekening'' \<and>
      drawing_type (vision_output inp) \<noteq> ''installatietekening'' \<longrightarrow>
       (\<exists>uniq out.
          remove_duplicate_lines
            (step1_lines (drawing_type (vision_output inp)) (lines page)) = Inr uniq \<and>
          filter_clean inp = Inr out \<and>
          map (\<lambda>rd. map Inr (rd_lines rd)) (out_regions out) =
          map (\<lambda>r. map to_filtered_line (filter (\<lambda>l. hits l r) uniq))
            (regions (vision_output inp))))"
proof (intro conjI impI)
  assume dt: "drawing_type (vision_output inp) = ''bestektekening''"
  then have ne: "drawing_type (vision_output inp) \<noteq> ''installatietekening''" by simp
  from filter_clean_wf [OF assms(1) ne assms(2) assms(3) assms(4)]
  obtain uniq ros where
    u: "remove_duplicate_lines (step1_lines (drawing_type (vision_output inp)) (lines page)) = Inr uniq"
    and f: "filter_clean inp =
      Inr \<lparr>out_drawing_type = drawing_type (vision_output inp), out_regions = ros\<rparr>"
    and m: "map (\<lambda>rd. map Inr (rd_lines rd)) ros =
     map (\<lambda>r. map to_filtered_line
       (filter (\<lambda>l. hits l r \<and> (drawing_type (vision_output inp) = ''bestektekening'' \<longrightarrow>
            should_include_line l (drawing_type (vision_output inp)) (label r))) uniq))
       (regions (vision_output inp))"
    by blast
  from u dt have "remove_duplicate_lines
      (filter (\<lambda>l. (stroke_width l \<le> 1.5 \<and> line_length l \<ge> 20) \<or> is_dashed l) (lines page))
      = Inr uniq"
    by (simp add: step1_lines_def)
  moreover from m dt have "map (\<lambda>rd. map Inr (rd_lines rd)) ros =
      map (\<lambda>r. map to_filtered_line
             (filter (\<lambda>l. hits l r \<and>
                ((stroke_width l \<le> fst (spec_thresholds (parse_bestektekening_region_type (label r))) \<and>
                  line_length l \<ge> snd (spec_thresholds (parse_bestektekening_region_type (label r))))
                 \<or> is_dashed l)) uniq))
        (regions (vision_output inp))"
    by (simp add: should_include_line_bestek)
  ultimately show "\<exists>uniq out.
          remove_duplicate_lines
            (filter (\<lambda>l. (stroke_width l \<le> 1.5 \<and> line_length l \<ge> 20) \<or> is_dashed l) (lines page))
            = Inr uniq \<and>
          filter_clean inp = Inr out \<and>
          map (\<lambda>rd. map Inr (rd_lines rd)) (out_regions out) =
          map (\<lambda>r. map to_filtered_line
                 (filter (\<lambda>l. hits l r \<and>
                    ((stroke_width l \<le> fst (spec_thresholds (parse_bestektekening_region_type (label r))) \<and>
                      line_length l \<ge> snd (spec_thresholds (parse_bestektekening_region_type (label r))))
                     \<or> is_dashed l)) uniq))
            (regions (vision_output inp))"
    using f by (intro exI [of _ uniq] exI [of _ "\<lparr>out_drawing_type = drawing_type (vision_output inp), out_regions = ros\<rparr>"]) simp
next
  assume "drawing_type (vision_output inp) \<noteq> ''bestektekening'' \<and>
      drawing_type (vision_output inp) \<noteq> ''installatietekening''"
  then have nb: "drawing_type (vision_output inp) \<noteq> ''bestektekening''"
    and ne: "drawing_type (vision_output inp) \<noteq> ''installatietekening''" by simp_all
  from filter_clean_wf [OF assms(1) ne assms(2) assms(3) assms(4)]
  obtain uniq ros where
    u: "remove_duplicate_lines (step1_lines (drawing_type (vision_output inp)) (lines page)) = Inr uniq"
    and f: "filter_clean inp =
      Inr \<lparr>out_drawing_type = drawing_type (vision_output inp), out_regions = ros\<rparr>"
    and m: "map (\<lambda>rd. map Inr (rd_lines rd)) ros =
     map (\<lambda>r. map to_filtered_line
       (filter (\<lambda>l. hits l r \<and> (drawing_type (vision_output inp) = ''bestektekening'' \<longrightarrow>
            should_include_line l (drawing_type (vision_output inp)) (label r))) uniq))
       (regions (vision_output inp))"
    by blast
  from m nb have "map (\<lambda>rd. map Inr (rd_lines rd)) ros =
      map (\<lambda>r. map to_filtered_line (filter (\<lambda>l. hits l r) uniq)) (regions (vision_output inp))"
    by simp
  then show "\<exists>uniq out.
          remove_duplicate_lines
            (step1_lines (drawing_type (vision_output inp)) (lines page)) = Inr uniq \<and>
          filter_clean inp = Inr out \<and>
          map (\<lambda>rd. map Inr (rd_lines rd)) (out_regions out) =
          map (\<lambda>r. map to_filtered_line (filter (\<lambda>l. hits l r) uniq))
            (regions (vision_output inp))"
    using u f by (intro exI [of _ uniq] exI [of _ "\<lparr>out_drawing_type = drawing_type (vision_output inp), out_regions = ros\<rparr>"]) simp
qed

theorem region_line_inclusion_witness:
  "(\<exists>uniq out.
      remove_duplicate_lines
        (filter (\<lambda>l. (stroke_width l \<le> 1.5 \<and> line_length l \<ge> 20) \<or> is_dashed l) [example_line])
        = Inr uniq \<and>
      filter_clean (example_input ''bestektekening'' ''Detail (detailtekening)'' [0, 0, 200, 50])
        = Inr out \<and>
      map (\<lambda>rd. map Inr (rd_lines rd)) (out_regions out) =
      map (\<lambda>r. map to_filtered_line
             (filter (\<lambda>l. hits l r \<and>
                ((stroke_width l \<le> fst (spec_thresholds (parse_bestektekening_region_type (label r))) \<and>
                  line_length l \<ge> snd (spec_thresholds (parse_bestektekening_region_type (label r))))
                 \<or> is_dashed l)) uniq))
        [\<lparr>label = ''Detail (detailtekening)'', coordinate_block = [0, 0, 200, 50]\<rparr>])
   \<and>
   (\<exists>uniq out.
      remove_duplicate_lines (step1_lines ''doorsnede'' [example_line]) = Inr uniq \<and>
      filter_clean (example_input ''doorsnede'' ''A'' [0, 0, 200, 50]) = Inr out \<and>
      map (\<lambda>rd. map Inr (rd_lines rd)) (out_regions out) =
      map (\<lambda>r. map to_filtered_line (filter (\<lambda>l. hits l r) uniq))
        [\<lparr>label = ''A'', coordinate_block = [0, 0, 200, 50]\<rparr>])"
proof -
  let ?page = "\<lparr>page_size = [(''width'', 595), (''height'', 842)], lines = [example_line],
                texts = []\<rparr>"
  let ?b = "example_input ''bestektekening'' ''Detail (detailtekening)'' [0, 0, 200, 50]"
  let ?d = "example_input ''doorsnede'' ''A'' [0, 0, 200, 50]"
  have pb: "pages (vector_data ?b) = ?page # []" and pd: "pages (vector_data ?d) = ?page # []"
    by (simp_all add: example_input_def)
  have wl: "\<forall>l\<in>set (lines ?page). wf_line l"
    by (simp add: example_line_def wf_line_def)
  have wt: "\<forall>t\<in>set (texts ?page). wf_text t" by simp
  have rb: "\<forall>r\<in>set (regions (vision_output ?b)). wf_region r"
    and rd: "\<forall>r\<in>set (regions (vision_output ?d)). wf_region r"
    by (simp_all add: example_input_def wf_region_def)
  have tb: "drawing_type (vision_output ?b) = ''bestektekening''"
    by (simp add: example_input_def)
  have td: "drawing_type (vision_output ?d) \<noteq> ''bestektekening'' \<and>
      drawing_type (vision_output ?d) \<noteq> ''installatietekening''"
    by (simp add: example_input_def)
  note b = region_line_inclusion [OF pb wl wt rb, THEN conjunct1, THEN mp, OF tb]
  note d = region_line_inclusion [OF pd wl wt rd, THEN conjunct2, THEN mp, OF td]
  have rgb: "regions (vision_output ?b) =
      [\<lparr>label = ''Detail (detailtekening)'', coordinate_block = [0, 0, 200, 50]\<rparr>]"
    and rgd: "regions (vision_output ?d) = [\<lparr>label = ''A'', coordinate_block = [0, 0, 200, 50]\<rparr>]"
    and dd: "drawing_type (vision_output ?d) = ''doorsnede''"
    by (simp_all add: example_input_def)
  have lp: "lines ?page = [example_line]" by simp
  show ?thesis
    using b d unfolding rgb rgd dd lp by (rule conjI)
qed

text \<open>
  Claim C10, as the code has it. The pipeline fails as a whole or succeeds as a whole:
  every failure is a structured failure (an HTTP error) with no output, and every
  output is complete (the drawing type of the input and, unless that is
  \<open>installatietekening\<close>, one entry per input region, in input order, with the region's
  label). An empty list of pages fails. It is not the only malformed input that fails:
  an input with a page and a drawing type other than \<open>installatietekening\<close> also
  fails when the coordinate block of some region does not have exactly four numbers
  and the first page has a text or a line that survives step 1. When the first page's
  line endpoints have two numbers, its text bounding boxes four, and the coordinate
  blocks of the regions four, and the drawing type is not \<open>installatietekening\<close>, the
  pipeline succeeds.
\<close>

theorem pipeline_all_or_nothing:
  "(pages (vector_data inp) = [] \<longrightarrow> (\<exists>code. filter_clean inp = Inl (HTTPException code)))
   \<and> (\<forall>e. filter_clean inp = Inl e \<longrightarrow> (\<exists>code. e = HTTPException code))
   \<and> (\<forall>out. filter_clean inp = Inr out \<longrightarrow>
         out_drawing_type out = drawing_type (vision_output inp) \<and>
         (drawing_type (vision_output inp) \<noteq> ''installatietekening'' \<longrightarrow>
            map rd_label (out_regions out) = map label (regions (vision_output inp))))
   \<and> (\<forall>page others r.
         pages (vector_data inp) = page # others \<and>
         drawing_type (vision_output inp) \<noteq> ''installatietekening'' \<and>
         r \<in> set (regions (vision_output inp)) \<and>
         length (coordinate_block r) \<noteq> 4 \<and>
         (step1_lines (drawing_type (vision_output inp)) (lines page) \<noteq> [] \<or> texts page \<noteq> []) \<longrightarrow>
         (\<exists>code. filter_clean inp = Inl (HTTPException code)))
   \<and> (\<forall>page others.
         pages (vector_data inp) = page # others \<and>
         drawing_type (vision_output inp) \<noteq> ''installatietekening'' \<and>
         (\<forall>l\<in>set (lines page). wf_line l) \<and>
         (\<forall>t\<in>set (texts page). wf_text t) \<and>
         (\<forall>r\<in>set (regions (vision_output inp)). wf_region r) \<longrightarrow>
         (\<exists>out. filter_clean inp = Inr out \<and>
            map rd_label (out_regions out) = map label (regions (vision_output inp))))"
proof (intro conjI allI impI)
  assume "pages (vector_data inp) = []"
  then have "filter_clean inp = Inl (HTTPException 500)"
    by (simp add: filter_clean_def filter_body_def)
  then show "\<exists>code. filter_clean inp = Inl (HTTPException code)" by blast
next
  fix e assume "filter_clean inp = Inl e"
  then have "e = HTTPException 500" by (rule filter_clean_failure)
  then show "\<exists>code. e = HTTPException code" by blast
next
  fix out assume "filter_clean inp = Inr out"
  then show "out_drawing_type out = drawing_type (vision_output inp)"
    using filter_clean_complete by blast
next
  fix out
  assume "filter_clean inp = Inr out"
    and "drawing_type (vision_output inp) \<noteq> ''installatietekening''"
  then show "map rd_label (out_regions out) = map label (regions (vision_output inp))"
    using filter_clean_complete [of inp out] by simp
next
  fix page others r
  assume "pages (vector_data inp) = page # others \<and>
         drawing_type (vision_output inp) \<noteq> ''installatietekening'' \<and>
         r \<in> set (regions (vision_output inp)) \<and>
         length (coordinate_block r) \<noteq> 4 \<and>
         (step1_lines (drawing_type (vision_output inp)) (lines page) \<noteq> [] \<or> texts page \<noteq> [])"
  then have "filter_clean inp = Inl (HTTPException 500)"
    using filter_clean_wrong_arity [of inp page others r] by blast
  then show "\<exists>code. filter_clean inp = Inl (HTTPException code)" by blast
next
  fix page others
  assume a: "pages (vector_data inp) = page # others \<and>
         drawing_type (vision_output inp) \<noteq> ''installatietekening'' \<and>
         (\<forall>l\<in>set (lines page). wf_line l) \<and>
         (\<forall>t\<in>set (texts page). wf_text t) \<and>
         (\<forall>r\<in>set (regions (vision_output inp)). wf_region r)"
  then obtain uniq ros where
    "filter_clean inp = Inr \<lparr>out_drawing_type = drawing_type (vision_output inp), out_regions = ros\<rparr>"
    "map rd_label ros = map label (regions (vision_output inp))"
    using filter_clean_wf [of inp page others] by blast
  then show "\<exists>out. filter_clean inp = Inr out \<and>
            map rd_label (out_regions out) = map label (regions (vision_output inp))"
    by (intro exI [of _ "\<lparr>out_drawing_type = drawing_type (vision_output inp), out_regions = ros\<rparr>"]) simp
qed

theorem pipeline_all_or_nothing_witness:
  "(\<exists>code. filter_clean \<lparr>vector_data = \<lparr>page_number = 1, pages = []\<rparr>,
                 vision_output = \<lparr>drawing_type = ''plattegrond'', regions = []\<rparr>\<rparr>
     = Inl (HTTPException code))
   \<and> (\<exists>code. filter_clean (example_input ''bestektekening'' ''B'' [0, 0]) = Inl (HTTPException code))
   \<and> (\<exists>out. filter_clean (example_input ''plattegrond'' ''A'' [0, 0, 200, 50]) = Inr out \<and>
        out_drawing_type out = ''plattegrond'' \<and>
        map rd_label (out_regions out) = [''A''])"
proof -
  let ?page = "\<lparr>page_size = [(''width'', 595), (''height'', 842)], lines = [example_line],
                texts = []\<rparr>"
  let ?ex = "example_input ''plattegrond'' ''A'' [0, 0, 200, 50]"
  let ?bad = "example_input ''bestektekening'' ''B'' [0, 0]"
  have 1: "\<exists>code. filter_clean \<lparr>vector_data = \<lparr>page_number = 1, pages = []\<rparr>,
                 vision_output = \<lparr>drawing_type = ''plattegrond'', regions = []\<rparr>\<rparr>
     = Inl (HTTPException code)"
    by (rule pipeline_all_or_nothing [THEN conjunct1, THEN mp]) simp
  have 2: "\<exists>code. filter_clean ?bad = Inl (HTTPException code)"
    by (rule pipeline_all_or_nothing
          [THEN conjunct2, THEN conjunct2, THEN conjunct2, THEN conjunct1, rule_format,
           of _ ?page "[]" "\<lparr>label = ''B'', coordinate_block = [0, 0]\<rparr>"])
      (simp add: example_input_def example_line_def step1_lines_def)
  have "\<exists>out. filter_clean ?ex = Inr out \<and>
      map rd_label (out_regions out) = map label (regions (vision_output ?ex))"
    by (rule pipeline_all_or_nothing
          [THEN conjunct2, THEN conjunct2, THEN conjunct2, THEN conjunct2, rule_format,
           of _ ?page "[]"])
      (simp add: example_input_def example_line_def wf_line_def wf_region_def)
  then obtain out where out: "filter_clean ?ex = Inr out"
    "map rd_label (out_regions out) = map label (regions (vision_output ?ex))"
    by blast
  have "out_drawing_type out = drawing_type (vision_output ?ex)"
    by (rule pipeline_all_or_nothing
          [THEN conjunct2, THEN conjunct2, THEN conjunct1, rule_format, THEN conjunct1])
      (rule out(1))
  then have 3: "out_drawing_type out = ''plattegrond''"
    by (simp add: example_input_def)
  have 4: "map rd_label (out_regions out) = [''A'']"
    using out(2) by (simp add: example_input_def)
  show ?thesis
    apply (intro conjI)
      apply (rule 1)
     apply (rule 2)
    apply (rule exI [of _ out])
    apply (intro conjI out(1) 3 4)
    done
qed

text \<open>
  The claim as stated fails: this input has a page and a drawing type other than
  \<open>installatietekening\<close>, its region has three coordinates, and the pipeline fails
  instead of returning one entry for the region.
\<close>

theorem pipeline_other_failure_counterexample:
  "pages (vector_data (example_input ''plattegrond'' ''A'' [0, 0, 200])) \<noteq> []
   \<and> filter_clean (example_input ''plattegrond'' ''A'' [0, 0, 200]) = Inl (HTTPException 500)"
  by (simp add: example_eval)

text \<open>
  Claim C3. The parser gives 2400 for \<open>2400mm\<close>, 3500 for \<open>3.5m\<close>, 2500 for \<open>250cm\<close>,
  7555 for \<open>+7555P\<close>, 6032 for \<open>6032+p\<close>, 3749 for \<open>3749 + p\<close>, and no value for
  \<open>abc\<close>. In general, for a numeric literal \<open>n\<close> (digits, optionally a comma or a dot
  and digits), optional white space, a marker \<open>mk\<close> (p or v in either case) and a unit
  \<open>u\<close> (none, or mm, cm, m in any case), the texts \<open>n u\<close>, \<open>+n u\<close>, \<open>n mk u\<close>,
  \<open>+n mk u\<close> and \<open>n + mk u\<close> all parse to the value of the literal times the factor
  of the unit: 10 for cm, 1000 for m, 1 for mm and for no unit. The plus sign and the
  marker leave the value unchanged.
\<close>

theorem dimension_parser:
  "extract_dimension_value ''2400mm'' = Some 2400
   \<and> extract_dimension_value ''3.5m'' = Some 3500
   \<and> extract_dimension_value ''250cm'' = Some 2500
   \<and> extract_dimension_value ''+7555P'' = Some 7555
   \<and> extract_dimension_value ''6032+p'' = Some 6032
   \<and> extract_dimension_value ''3749 + p'' = Some 3749
   \<and> extract_dimension_value ''abc'' = None
   \<and> (number_literal n \<and> spaces ws \<and> spaces ws1 \<and> spaces ws2 \<and> marker mk \<and> unit_text u \<longrightarrow>
        extract_dimension_value (n @ ws @ u) = Some (literal_value n * mm_per_unit u)
        \<and> extract_dimension_value (CHR ''+'' # n @ ws @ u) = Some (literal_value n * mm_per_unit u)
        \<and> extract_dimension_value (n @ ws @ mk # ws1 @ u) = Some (literal_value n * mm_per_unit u)
        \<and> extract_dimension_value (CHR ''+'' # n @ ws @ mk # ws1 @ u)
            = Some (literal_value n * mm_per_unit u)
        \<and> extract_dimension_value (n @ ws @ CHR ''+'' # ws1 @ mk # ws2 @ u)
            = Some (literal_value n * mm_per_unit u))
   \<and> mm_per_unit ''cm'' = 10 \<and> mm_per_unit ''m'' = 1000 \<and> mm_per_unit ''mm'' = 1
   \<and> mm_per_unit [] = 1
   \<and> (digits ip \<longrightarrow> literal_value ip = of_nat (nat_of_digits ip))
   \<and> (digits ip \<and> digits fp \<and> (sep = CHR '','' \<or> sep = CHR ''.'') \<longrightarrow>
        literal_value (ip @ sep # fp) =
          of_nat (nat_of_digits ip) + of_nat (nat_of_digits fp) / 10 ^ length fp)"
proof -
  have e1: "extract_dimension_value ''2400mm'' = Some 2400" by (simp add: parser_eval)
  have e2: "extract_dimension_value ''3.5m'' = Some 3500" by (simp add: parser_eval)
  have e3: "extract_dimension_value ''250cm'' = Some 2500" by (simp add: parser_eval)
  have e4: "extract_dimension_value ''+7555P'' = Some 7555" by (simp add: parser_eval)
  have e5: "extract_dimension_value ''6032+p'' = Some 6032" by (simp add: parser_eval)
  have e6: "extract_dimension_value ''3749 + p'' = Some 3749" by (simp add: parser_eval)
  have e7: "extract_dimension_value ''abc'' = None" by (simp add: parser_eval)
  have g: "number_literal n \<and> spaces ws \<and> spaces ws1 \<and> spaces ws2 \<and> marker mk \<and> unit_text u \<longrightarrow>
        extract_dimension_value (n @ ws @ u) = Some (literal_value n * mm_per_unit u)
        \<and> extract_dimension_value (CHR ''+'' # n @ ws @ u) = Some (literal_value n * mm_per_unit u)
        \<and> extract_dimension_value (n @ ws @ mk # ws1 @ u) = Some (literal_value n * mm_per_unit u)
        \<and> extract_dimension_value (CHR ''+'' # n @ ws @ mk # ws1 @ u)
            = Some (literal_value n * mm_per_unit u)
        \<and> extract_dimension_value (n @ ws @ CHR ''+'' # ws1 @ mk # ws2 @ u)
            = Some (literal_value n * mm_per_unit u)"
    by (intro impI conjI extract_plain extract_plus extract_marker extract_plus_marker
        extract_number_plus_marker) simp_all
  have f: "mm_per_unit ''cm'' = 10" "mm_per_unit ''m'' = 1000" "mm_per_unit ''mm'' = 1"
    "mm_per_unit [] = 1"
    by (simp_all add: mm_per_unit_def lower_py_def lower_char_def)
  have v1: "digits ip \<longrightarrow> literal_value ip = of_nat (nat_of_digits ip)"
    using literal_value_int by blast
  have v2: "digits ip \<and> digits fp \<and> (sep = CHR '','' \<or> sep = CHR ''.'') \<longrightarrow>
        literal_value (ip @ sep # fp) =
          of_nat (nat_of_digits ip) + of_nat (nat_of_digits fp) / 10 ^ length fp"
    using literal_value_frac by blast
  show ?thesis
    by (intro conjI e1 e2 e3 e4 e5 e6 e7 g f v1 v2)
qed

theorem dimension_parser_witness:
  "extract_dimension_value ''12,5 P CM'' = Some (literal_value ''12,5'' * mm_per_unit ''CM'')
   \<and> extract_dimension_value ''7 + v'' = Some (literal_value ''7'' * mm_per_unit [])
   \<and> literal_value ''12,5'' = 12.5
   \<and> literal_value ''7'' = 7
   \<and> mm_per_unit ''CM'' = 10"
proof -
  have n1: "number_literal ''12,5''"
    unfolding number_literal_def
    by (intro disjI2 exI [of _ "''12''"] exI [of _ "CHR '',''"] exI [of _ "''5''"])
      (simp add: digits_def is_digit_def)
  have n2: "number_literal ''7''"
    by (simp add: number_literal_def digits_def is_digit_def)
  have s: "spaces '' ''" "spaces []" by (simp_all add: spaces_def is_space_py_def)
  have m: "marker CHR ''P''" "marker CHR ''v''" by (simp_all add: marker_def)
  have u: "unit_text ''CM''" "unit_text []"
    by (simp_all add: unit_text_def lower_py_def lower_char_def char_of_eq_iff eq_char_of_iff)
  have d: "digits ''12''" "digits ''5''" "digits ''7''" by (simp_all add: digits_def is_digit_def)
  note t1 = dimension_parser [of "''12,5''" "'' ''" "'' ''" "[]" "CHR ''P''" "''CM''" "''12''" "''5''" "CHR '',''"]
  note t2 = dimension_parser [of "''7''" "'' ''" "'' ''" "[]" "CHR ''v''" "[]" "''7''" "''5''" "CHR '',''"]
  have a: "extract_dimension_value (''12,5'' @ '' '' @ CHR ''P'' # '' '' @ ''CM'')
      = Some (literal_value ''12,5'' * mm_per_unit ''CM'')"
    using t1 n1 s m u by blast
  have b: "extract_dimension_value (''7'' @ '' '' @ CHR ''+'' # '' '' @ CHR ''v'' # [] @ [])
      = Some (literal_value ''7'' * mm_per_unit [])"
    using t2 n2 s m u by blast
  have c: "literal_value (''12'' @ CHR '','' # ''5'') =
      of_nat (nat_of_digits ''12'') + of_nat (nat_of_digits ''5'') / 10 ^ length ''5''"
    using t1 d by blast
  have e: "literal_value ''7'' = of_nat (nat_of_digits ''7'')" using t2 d by blast
  have c': "literal_value ''12,5'' = 12.5"
    using c by (simp add: nat_of_digits_def digit_val_def)
  have e': "literal_value ''7'' = 7"
    using e by (simp add: nat_of_digits_def digit_val_def)
  have f: "mm_per_unit ''CM'' = 10"
    by (simp add: mm_per_unit_def lower_py_def lower_char_def char_of_eq_iff eq_char_of_iff)
  show ?thesis using a b c' e' f by simp
qed

text \<open>
  Claim C4. When the parse of a text succeeds with the value \<open>v\<close>, the validator accepts
  the text iff \<open>min \<le> v \<le> 100000\<close>, where \<open>min\<close> is 500 for the drawing type
  \<open>plattegrond\<close> and 100 for every other type; when the parse fails, the validator
  rejects. So 499 is rejected and 500 accepted for \<open>plattegrond\<close>, 99 rejected and 100
  accepted for any other type, 100001 rejected and 100000 accepted for all types.
\<close>

theorem dimension_validity:
  "(extract_dimension_value t = Some v \<longrightarrow>
      is_valid_dimension t dtype =
        ((if dtype = ''plattegrond'' then 500 else 100) \<le> v \<and> v \<le> 100000))
   \<and> (extract_dimension_value t = None \<longrightarrow> \<not> is_valid_dimension t dtype)
   \<and> \<not> is_valid_dimension ''499'' ''plattegrond''
   \<and> is_valid_dimension ''500'' ''plattegrond''
   \<and> (dtype \<noteq> ''plattegrond'' \<longrightarrow>
        \<not> is_valid_dimension ''99'' dtype \<and> is_valid_dimension ''100'' dtype)
   \<and> \<not> is_valid_dimension ''100001'' dtype
   \<and> is_valid_dimension ''100000'' dtype"
proof -
  have some: "is_valid_dimension s d =
      ((if d = ''plattegrond'' then 500 else 100) \<le> w \<and> w \<le> 100000)"
    if "extract_dimension_value s = Some w" for s d w
  proof -
    have "strip_py s \<noteq> []" using that extract_blank by fastforce
    then have "s \<noteq> []" by (auto simp add: strip_py_def)
    with \<open>strip_py s \<noteq> []\<close> that show ?thesis
      by (auto simp add: is_valid_dimension_def extract_strip)
  qed
  have none: "\<not> is_valid_dimension s d" if "extract_dimension_value s = None" for s d
    using that by (simp add: is_valid_dimension_def extract_strip)
  have v: "extract_dimension_value ''499'' = Some 499" "extract_dimension_value ''500'' = Some 500"
    "extract_dimension_value ''99'' = Some 99" "extract_dimension_value ''100'' = Some 100"
    "extract_dimension_value ''100001'' = Some 100001"
    "extract_dimension_value ''100000'' = Some 100000"
    by (simp_all add: parser_eval)
  show ?thesis
    using some none
    by (simp add: some [OF v(1)] some [OF v(2)] some [OF v(3)] some [OF v(4)]
        some [OF v(5)] some [OF v(6)])
qed

theorem dimension_validity_witness:
  "extract_dimension_value ''2400mm'' = Some 2400
   \<and> is_valid_dimension ''2400mm'' ''plattegrond''
   \<and> extract_dimension_value ''250mm'' = Some 250
   \<and> \<not> is_valid_dimension ''250mm'' ''plattegrond''
   \<and> is_valid_dimension ''250mm'' ''doorsnede''
   \<and> extract_dimension_value ''abc'' = None
   \<and> \<not> is_valid_dimension ''abc'' ''doorsnede''
   \<and> \<not> is_valid_dimension ''99'' ''doorsnede''
   \<and> is_valid_dimension ''100'' ''doorsnede''"
proof -
  have a: "extract_dimension_value ''2400mm'' = Some 2400" by (simp add: parser_eval)
  have b: "extract_dimension_value ''250mm'' = Some 250" by (simp add: parser_eval)
  have c: "extract_dimension_value ''abc'' = None" by (simp add: parser_eval)
  have 1: "is_valid_dimension ''2400mm'' ''plattegrond''"
    using dimension_validity [of "''2400mm''" 2400 "''plattegrond''"] a by simp
  have 2: "\<not> is_valid_dimension ''250mm'' ''plattegrond''"
    using dimension_validity [of "''250mm''" 250 "''plattegrond''"] b by simp
  have 3: "is_valid_dimension ''250mm'' ''doorsnede''"
    using dimension_validity [of "''250mm''" 250 "''doorsnede''"] b by simp
  have 4: "\<not> is_valid_dimension ''abc'' ''doorsnede''"
    using dimension_validity [of "''abc''" 0 "''doorsnede''"] c by simp
  have 5: "\<not> is_valid_dimension ''99'' ''doorsnede'' \<and> is_valid_dimension ''100'' ''doorsnede''"
    using dimension_validity [of "''abc''" 0 "''doorsnede''"] by simp
  show ?thesis using a b c 1 2 3 4 5 by simp
qed



text \<open>
  Claim C6. Deduplication is idempotent: running it on its own result changes nothing
  (and an exception of the first run is the result of both sides). It preserves the
  input order: the result is a subsequence of the input. It keeps the first
  occurrence: the first line of the input is always kept, and a later line is dropped
  exactly when it matches a line kept before it, otherwise it is appended. Two lines
  match when their endpoints differ by less than 1 in each coordinate (the comparison
  of the code is strict), start against start and end against end, or start against
  end and end against start; so of two such lines the earlier one is the one kept. On
  lines whose endpoints are coordinate pairs the deduplication returns a result.
\<close>

theorem dedupe_idempotent_first_wins:
  "bind_res (remove_duplicate_lines ls) remove_duplicate_lines = remove_duplicate_lines ls
   \<and> (\<forall>u. remove_duplicate_lines ls = Inr u \<longrightarrow> subseq u ls)
   \<and> (\<forall>u. remove_duplicate_lines (l # ls) = Inr u \<longrightarrow> (\<exists>v. u = l # v))
   \<and> remove_duplicate_lines (ls @ [l]) =
       bind_res (remove_duplicate_lines ls) (\<lambda>u.
       bind_res (is_duplicate l u) (\<lambda>d. Inr (if d then u else u @ [l])))
   \<and> (wf_line l \<and> (\<forall>e\<in>set ls. wf_line e) \<longrightarrow>
        is_duplicate l ls = Inr (\<exists>e\<in>set ls. same_segment l e = Inr True))
   \<and> (p1 a = [x1, y1] \<and> p2 a = [x2, y2] \<and> p1 b = [u1, v1] \<and> p2 b = [u2, v2] \<longrightarrow>
        same_segment b a =
          Inr ((\<bar>u1 - x1\<bar> < 1 \<and> \<bar>v1 - y1\<bar> < 1 \<and> \<bar>u2 - x2\<bar> < 1 \<and> \<bar>v2 - y2\<bar> < 1) \<or>
               (\<bar>u1 - x2\<bar> < 1 \<and> \<bar>v1 - y2\<bar> < 1 \<and> \<bar>u2 - x1\<bar> < 1 \<and> \<bar>v2 - y1\<bar> < 1))
        \<and> remove_duplicate_lines [a, b] =
          Inr (if (\<bar>u1 - x1\<bar> < 1 \<and> \<bar>v1 - y1\<bar> < 1 \<and> \<bar>u2 - x2\<bar> < 1 \<and> \<bar>v2 - y2\<bar> < 1) \<or>
                  (\<bar>u1 - x2\<bar> < 1 \<and> \<bar>v1 - y2\<bar> < 1 \<and> \<bar>u2 - x1\<bar> < 1 \<and> \<bar>v2 - y1\<bar> < 1)
               then [a] else [a, b]))
   \<and> ((\<forall>e\<in>set ls. wf_line e) \<longrightarrow> (\<exists>u. remove_duplicate_lines ls = Inr u))"
proof (intro conjI allI impI)
  show "bind_res (remove_duplicate_lines ls) remove_duplicate_lines = remove_duplicate_lines ls"
    by (rule dedupe_idempotent)
next
  fix u assume "remove_duplicate_lines ls = Inr u"
  then have "dedupe_loop [] ls = Inr u" by (simp add: remove_duplicate_lines_def)
  then obtain v where "u = [] @ v" "subseq v ls" using dedupe_loop_subseq by blast
  then show "subseq u ls" by simp
next
  fix u assume "remove_duplicate_lines (l # ls) = Inr u"
  then show "\<exists>v. u = l # v" by (rule dedupe_keeps_first)
next
  show "remove_duplicate_lines (ls @ [l]) =
       bind_res (remove_duplicate_lines ls) (\<lambda>u.
       bind_res (is_duplicate l u) (\<lambda>d. Inr (if d then u else u @ [l])))"
    unfolding remove_duplicate_lines_def by (rule dedupe_loop_snoc)
next
  assume "wf_line l \<and> (\<forall>e\<in>set ls. wf_line e)"
  then show "is_duplicate l ls = Inr (\<exists>e\<in>set ls. same_segment l e = Inr True)"
    using is_duplicate_iff by blast
next
  assume "p1 a = [x1, y1] \<and> p2 a = [x2, y2] \<and> p1 b = [u1, v1] \<and> p2 b = [u2, v2]"
  then show "same_segment b a =
          Inr ((\<bar>u1 - x1\<bar> < 1 \<and> \<bar>v1 - y1\<bar> < 1 \<and> \<bar>u2 - x2\<bar> < 1 \<and> \<bar>v2 - y2\<bar> < 1) \<or>
               (\<bar>u1 - x2\<bar> < 1 \<and> \<bar>v1 - y2\<bar> < 1 \<and> \<bar>u2 - x1\<bar> < 1 \<and> \<bar>v2 - y1\<bar> < 1))"
    using same_segment_points by blast
next
  assume "p1 a = [x1, y1] \<and> p2 a = [x2, y2] \<and> p1 b = [u1, v1] \<and> p2 b = [u2, v2]"
  then show "remove_duplicate_lines [a, b] =
          Inr (if (\<bar>u1 - x1\<bar> < 1 \<and> \<bar>v1 - y1\<bar> < 1 \<and> \<bar>u2 - x2\<bar> < 1 \<and> \<bar>v2 - y2\<bar> < 1) \<or>
                  (\<bar>u1 - x2\<bar> < 1 \<and> \<bar>v1 - y2\<bar> < 1 \<and> \<bar>u2 - x1\<bar> < 1 \<and> \<bar>v2 - y1\<bar> < 1)
               then [a] else [a, b])"
    using dedupe_pair by blast
next
  assume "\<forall>e\<in>set ls. wf_line e"
  then show "\<exists>u. remove_duplicate_lines ls = Inr u"
    using remove_duplicate_lines_wf by blast
qed

theorem dedupe_idempotent_first_wins_witness:
  "remove_duplicate_lines
     [example_line, example_line\<lparr>p1 := [100.5, 0], p2 := [0, 0.5]\<rparr>,
      example_line\<lparr>p1 := [1, 0]\<rparr>]
     = Inr [example_line, example_line\<lparr>p1 := [1, 0]\<rparr>]
   \<and> remove_duplicate_lines [example_line, example_line\<lparr>p1 := [1, 0]\<rparr>]
     = Inr [example_line, example_line\<lparr>p1 := [1, 0]\<rparr>]
   \<and> subseq [example_line, example_line\<lparr>p1 := [1, 0]\<rparr>]
       [example_line, example_line\<lparr>p1 := [100.5, 0], p2 := [0, 0.5]\<rparr>,
        example_line\<lparr>p1 := [1, 0]\<rparr>]
   \<and> remove_duplicate_lines [example_line, example_line\<lparr>p1 := [100.5, 0], p2 := [0, 0.5]\<rparr>]
     = Inr [example_line]"
proof -
  let ?a = "example_line"
  let ?b = "example_line\<lparr>p1 := [100.5, 0], p2 := [0, 0.5]\<rparr>"
  let ?c = "example_line\<lparr>p1 := [1, 0]\<rparr>"
  have ab: "remove_duplicate_lines [?a, ?b] = Inr [?a]"
    using dedupe_idempotent_first_wins
      [of "[]" ?a ?a 0 0 100 0 ?b "100.5" 0 0 "0.5",
       THEN conjunct2, THEN conjunct2, THEN conjunct2, THEN conjunct2, THEN conjunct2,
       THEN conjunct1]
    by (simp add: example_line_def)
  have wf: "wf_line ?c \<and> (\<forall>e\<in>set [?a]. wf_line e)"
    by (simp add: example_line_def wf_line_def)
  have dc: "is_duplicate ?c [?a] = Inr (\<exists>e\<in>set [?a]. same_segment ?c e = Inr True)"
    using dedupe_idempotent_first_wins
      [of "[?a]" ?c ?a 0 0 100 0 ?b "100.5" 0 0 "0.5",
       THEN conjunct2, THEN conjunct2, THEN conjunct2, THEN conjunct2, THEN conjunct1]
      wf
    by (rule mp)
  have sc: "same_segment ?c ?a = Inr False"
    using dedupe_idempotent_first_wins
      [of "[]" ?a ?a 0 0 100 0 ?c 1 0 100 0,
       THEN conjunct2, THEN conjunct2, THEN conjunct2, THEN conjunct2, THEN conjunct2,
       THEN conjunct1]
    by (simp add: example_line_def)
  have dc': "is_duplicate ?c [?a] = Inr False" using dc sc by simp
  have abc: "remove_duplicate_lines ([?a, ?b] @ [?c]) = Inr [?a, ?c]"
    using dedupe_idempotent_first_wins
      [of "[?a, ?b]" ?c ?a 0 0 100 0 ?b "100.5" 0 0 "0.5",
       THEN conjunct2, THEN conjunct2, THEN conjunct2, THEN conjunct1]
    by (simp only: ab dc' bind_res_simps if_False append_Cons append_Nil)
  have idem: "remove_duplicate_lines [?a, ?c] = Inr [?a, ?c]"
    using dedupe_idempotent_first_wins
      [of "[?a, ?b, ?c]" ?c ?a 0 0 100 0 ?b "100.5" 0 0 "0.5", THEN conjunct1] abc
    by (simp add: bind_res_simps)
  have sub: "subseq [?a, ?c] [?a, ?b, ?c]"
    using dedupe_idempotent_first_wins
      [of "[?a, ?b, ?c]" ?c ?a 0 0 100 0 ?b "100.5" 0 0 "0.5",
       THEN conjunct2, THEN conjunct1, THEN spec, of "[?a, ?c]"] abc
    by simp
  show ?thesis using abc idem sub ab by simp
qed



text \<open>
  Claim C7. The membership test of a segment in a region works on the rectangle of the
  region expanded by exactly 25 on each side. A segment with an endpoint inside the
  expanded rectangle (bounds included) is in the region. More generally, for a region
  given by its lower and upper corner, the test holds exactly when some point of the
  segment lies in the expanded rectangle: a segment outside the region that comes
  within 25 of it in each coordinate is included, and one that stays outside the
  expanded rectangle is excluded. In particular a segment that lies more than 25 to
  the left of, to the right of, below or above the region is excluded. Distances are
  per coordinate, as the buffer is.
\<close>

theorem segment_in_region_buffer:
  "((x1 - 25 \<le> ax \<and> ax \<le> x2 + 25 \<and> y1 - 25 \<le> ay \<and> ay \<le> y2 + 25) \<or>
    (x1 - 25 \<le> bx \<and> bx \<le> x2 + 25 \<and> y1 - 25 \<le> by \<and> by \<le> y2 + 25) \<longrightarrow>
      line_intersects_region [ax, ay] [bx, by] [x1, y1, x2, y2] = Inr True)
   \<and> (x1 \<le> x2 + 50 \<and> y1 \<le> y2 + 50 \<longrightarrow>
        line_intersects_region [ax, ay] [bx, by] [x1, y1, x2, y2] =
          Inr (segment_meets_box (ax, ay) (bx, by) (x1 - 25, y1 - 25, x2 + 25, y2 + 25)))
   \<and> (x1 \<le> x2 + 50 \<and> y1 \<le> y2 + 50 \<and> 0 \<le> t \<and> t \<le> 1 \<and>
        x1 - 25 \<le> ax + t * (bx - ax) \<and> ax + t * (bx - ax) \<le> x2 + 25 \<and>
        y1 - 25 \<le> ay + t * (by - ay) \<and> ay + t * (by - ay) \<le> y2 + 25 \<longrightarrow>
        line_intersects_region [ax, ay] [bx, by] [x1, y1, x2, y2] = Inr True)
   \<and> (max ax bx < x1 - 25 \<or> min ax bx > x2 + 25 \<or> max ay by < y1 - 25 \<or> min ay by > y2 + 25 \<longrightarrow>
        line_intersects_region [ax, ay] [bx, by] [x1, y1, x2, y2] = Inr False)"
proof (intro conjI impI)
  assume "(x1 - 25 \<le> ax \<and> ax \<le> x2 + 25 \<and> y1 - 25 \<le> ay \<and> ay \<le> y2 + 25) \<or>
    (x1 - 25 \<le> bx \<and> bx \<le> x2 + 25 \<and> y1 - 25 \<le> by \<and> by \<le> y2 + 25)"
  then show "line_intersects_region [ax, ay] [bx, by] [x1, y1, x2, y2] = Inr True"
    by (auto simp add: line_intersects_region_def expand_region_def in_box_def bind_res_simps
        Let_def)
next
  assume "x1 \<le> x2 + 50 \<and> y1 \<le> y2 + 50"
  then show "line_intersects_region [ax, ay] [bx, by] [x1, y1, x2, y2] =
      Inr (segment_meets_box (ax, ay) (bx, by) (x1 - 25, y1 - 25, x2 + 25, y2 + 25))"
    using line_intersects_region_meets by blast
next
  assume a: "x1 \<le> x2 + 50 \<and> y1 \<le> y2 + 50 \<and> 0 \<le> t \<and> t \<le> 1 \<and>
        x1 - 25 \<le> ax + t * (bx - ax) \<and> ax + t * (bx - ax) \<le> x2 + 25 \<and>
        y1 - 25 \<le> ay + t * (by - ay) \<and> ay + t * (by - ay) \<le> y2 + 25"
  then have "segment_meets_box (ax, ay) (bx, by) (x1 - 25, y1 - 25, x2 + 25, y2 + 25)"
    unfolding segment_meets_box_def by (intro exI [of _ t]) simp
  moreover have "line_intersects_region [ax, ay] [bx, by] [x1, y1, x2, y2] =
      Inr (segment_meets_box (ax, ay) (bx, by) (x1 - 25, y1 - 25, x2 + 25, y2 + 25))"
    using a line_intersects_region_meets by blast
  ultimately show "line_intersects_region [ax, ay] [bx, by] [x1, y1, x2, y2] = Inr True"
    by simp
next
  assume "max ax bx < x1 - 25 \<or> min ax bx > x2 + 25 \<or> max ay by < y1 - 25 \<or> min ay by > y2 + 25"
  then show "line_intersects_region [ax, ay] [bx, by] [x1, y1, x2, y2] = Inr False"
    by (auto simp add: line_intersects_region_def expand_region_def in_box_def bind_res_simps
        Let_def simp del: linestring_intersects_box.simps)
qed

theorem segment_in_region_buffer_witness:
  "line_intersects_region [- 20, - 30] [- 20, 150] [0, 0, 100, 100] = Inr True
   \<and> segment_meets_box (- 20, - 30) (- 20, 150) (0 - 25, 0 - 25, 100 + 25, 100 + 25)
   \<and> line_intersects_region [- 10, 50] [- 300, 50] [0, 0, 100, 100] = Inr True
   \<and> line_intersects_region [- 60, 100] [100, 260] [0, 0, 100, 100] = Inr False
   \<and> \<not> segment_meets_box (- 60, 100) (100, 260) (0 - 25, 0 - 25, 100 + 25, 100 + 25)
   \<and> line_intersects_region [- 30, 0] [- 30, 100] [0, 0, 100, 100] = Inr False"
proof -
  have v1: "line_intersects_region [- 20, - 30] [- 20, 150] [0, 0, 100, 100] = Inr True"
    by (simp add: line_intersects_region_def expand_region_def in_box_def bind_res_simps
        clip_axis_def Let_def)
  have v2: "line_intersects_region [- 60, 100] [100, 260] [0, 0, 100, 100] = Inr False"
    by (simp add: line_intersects_region_def expand_region_def in_box_def bind_res_simps
        clip_axis_def Let_def)
  have m1: "line_intersects_region [- 20, - 30] [- 20, 150] [0, 0, 100, 100] =
      Inr (segment_meets_box (- 20, - 30) (- 20, 150) (0 - 25, 0 - 25, 100 + 25, 100 + 25))"
    by (rule segment_in_region_buffer [THEN conjunct2, THEN conjunct1, THEN mp]) simp
  have m2: "line_intersects_region [- 60, 100] [100, 260] [0, 0, 100, 100] =
      Inr (segment_meets_box (- 60, 100) (100, 260) (0 - 25, 0 - 25, 100 + 25, 100 + 25))"
    by (rule segment_in_region_buffer [THEN conjunct2, THEN conjunct1, THEN mp]) simp
  have s1: "segment_meets_box (- 20, - 30) (- 20, 150) (0 - 25, 0 - 25, 100 + 25, 100 + 25)"
    using v1 m1 by simp
  have s2: "\<not> segment_meets_box (- 60, 100) (100, 260) (0 - 25, 0 - 25, 100 + 25, 100 + 25)"
    using v2 m2 by simp
  have e1: "line_intersects_region [- 10, 50] [- 300, 50] [0, 0, 100, 100] = Inr True"
    by (rule segment_in_region_buffer [THEN conjunct1, THEN mp]) simp
  have e2: "line_intersects_region [- 30, 0] [- 30, 100] [0, 0, 100, 100] = Inr False"
    by (rule segment_in_region_buffer
          [THEN conjunct2, THEN conjunct2, THEN conjunct2, THEN mp]) simp
  show ?thesis by (intro conjI v1 s1 e1 v2 s2 e2)
qed






end
